theory Spec2Isabelle
  imports Main "HOL-Library.Word" "HOL-Library.Multiset"
begin

section \<open>Tensors and instances (myelin/compute.h)\<close>

text \<open>
  Objects of the compiled network live in stores indexed by their address; a C++ pointer
  is an address, and the null pointer is \<open>None\<close>. A private member \<open>x_\<close> of the
  source is the field \<open>m_x\<close> of the record.
\<close>

type_synonym tensor_ptr = nat
type_synonym Shape = "int list"

text \<open>
  Modelled from the spec: the element type enum \<open>Type\<close> is declared in flow.h, which is not
  among the sources; the spec names float32, float64 and int32 and leaves the rest open.
\<close>

datatype Type = DT_INVALID | DT_FLOAT | DT_DOUBLE | DT_INT32 | DT_OTHER nat

record Tensor =
  m_offset :: int
  m_device_offset :: int
  m_type :: Type
  m_ref :: bool
  m_shape :: Shape
  m_stride :: Shape
  m_size :: int
  m_shared :: "tensor_ptr option"
  m_link :: "tensor_ptr option"
  m_data :: "int option"
  m_device_data :: "64 word"

type_synonym tensor_store = "tensor_ptr \<Rightarrow> Tensor"

text \<open>\<open>bool SharedWith(Tensor *other) const\<close>: \<open>shared_ == other || other->shared_ == this\<close>.\<close>

definition SharedWith :: "tensor_store \<Rightarrow> tensor_ptr \<Rightarrow> tensor_ptr \<Rightarrow> bool" where
  "SharedWith ts this other =
     (m_shared (ts this) = Some other \<or> m_shared (ts other) = Some this)"

text \<open>\<open>IsConstant\<close>: \<open>data_ != nullptr || device_data_ != DEVICE_NULL\<close>.\<close>

definition IsConstant :: "Tensor \<Rightarrow> bool" where
  "IsConstant t = (m_data t \<noteq> None \<or> m_device_data t \<noteq> 0)"

text \<open>
  The C++ \<open>int\<close> is 32 bits wide and signed; an overflowing product or sum is undefined
  behaviour, which the model reports as \<open>None\<close>. \<open>Shape::dim(d)\<close> indexes the vector of
  dimensions; an index outside it is undefined as well.
\<close>

definition int32_ok :: "int \<Rightarrow> bool" where
  "int32_ok x = (- (2 ^ 31) \<le> x \<and> x < 2 ^ 31)"

definition int32 :: "int \<Rightarrow> int option" where
  "int32 x = (if int32_ok x then Some x else None)"

definition dim :: "Shape \<Rightarrow> int \<Rightarrow> int option" where
  "dim s d = (if 0 \<le> d \<and> d < int (length s) then Some (s ! nat d) else None)"

definition stride :: "Tensor \<Rightarrow> int \<Rightarrow> int option" where
  "stride t d = dim (m_stride t) d"

text \<open>\<open>int offset(int r) const { return r * stride(0); }\<close>\<close>

definition offset1 :: "Tensor \<Rightarrow> int \<Rightarrow> int option" where
  "offset1 t r = Option.bind (stride t 0) (\<lambda>s0. int32 (r * s0))"

text \<open>\<open>int offset(int r, int c) const { return r * stride(0) + c * stride(1); }\<close>\<close>

definition offset2 :: "Tensor \<Rightarrow> int \<Rightarrow> int \<Rightarrow> int option" where
  "offset2 t r c =
     Option.bind (stride t 0) (\<lambda>s0.
     Option.bind (int32 (r * s0)) (\<lambda>a.
     Option.bind (stride t 1) (\<lambda>s1.
     Option.bind (int32 (c * s1)) (\<lambda>b. int32 (a + b)))))"

text \<open>
  An instance is a pointer to its data block and its cell. The block itself is part of the
  memory, a map from byte addresses to bytes, which every accessor takes and hands back.
\<close>

record Instance =
  i_data :: int
  i_cell :: nat

type_synonym memory = "int \<Rightarrow> 8 word"

datatype error = DCheckFailed | Undefined

text \<open>
  \<open>DCHECK\<close> aborts in debug builds and is compiled out otherwise; \<open>dchecks\<close> says which
  build runs. The three DCHECKs of \<open>Get\<close>: the parameter is not null, is not a constant, and
  has the element type \<open>T\<close>.
\<close>

definition Get_checks :: "bool \<Rightarrow> Type \<Rightarrow> Tensor \<Rightarrow> bool" where
  "Get_checks dchecks T param = (dchecks \<longrightarrow> \<not> IsConstant param \<and> T = m_type param)"

text \<open>\<open>T *Get(Tensor *param)\<close>: \<open>data_ + param->offset()\<close>.\<close>

definition Get :: "bool \<Rightarrow> Type \<Rightarrow> Instance \<Rightarrow> Tensor \<Rightarrow> memory \<Rightarrow> (error + int) \<times> memory" where
  "Get dchecks T inst param m =
     (if \<not> Get_checks dchecks T param then (Inl DCheckFailed, m)
      else (Inr (i_data inst + m_offset param), m))"

text \<open>\<open>T *Get(Tensor *param, int r)\<close>: \<open>data_ + param->offset() + param->offset(r)\<close>.\<close>

definition Get_r :: "bool \<Rightarrow> Type \<Rightarrow> Instance \<Rightarrow> Tensor \<Rightarrow> int \<Rightarrow> memory \<Rightarrow> (error + int) \<times> memory" where
  "Get_r dchecks T inst param r m =
     (if \<not> Get_checks dchecks T param then (Inl DCheckFailed, m)
      else case offset1 param r of
             None \<Rightarrow> (Inl Undefined, m)
           | Some k \<Rightarrow> (Inr (i_data inst + m_offset param + k), m))"

text \<open>\<open>T *Get(Tensor *param, int r, int c)\<close>: \<open>data_ + param->offset() + param->offset(r, c)\<close>.\<close>

definition Get_rc :: "bool \<Rightarrow> Type \<Rightarrow> Instance \<Rightarrow> Tensor \<Rightarrow> int \<Rightarrow> int \<Rightarrow> memory \<Rightarrow> (error + int) \<times> memory" where
  "Get_rc dchecks T inst param r c m =
     (if \<not> Get_checks dchecks T param then (Inl DCheckFailed, m)
      else case offset2 param r c of
             None \<Rightarrow> (Inl Undefined, m)
           | Some k \<Rightarrow> (Inr (i_data inst + m_offset param + k), m))"

definition example_tensor :: Tensor where
  "example_tensor =
     \<lparr>m_offset = 128, m_device_offset = -1, m_type = DT_FLOAT, m_ref = False,
      m_shape = [8, 16], m_stride = [64, 4], m_size = 512, m_shared = None, m_link = None,
      m_data = None, m_device_data = 0\<rparr>"

definition example_instance :: Instance where
  "example_instance = \<lparr>i_data = 4096, i_cell = 0\<rparr>"

section \<open>The flow graph\<close>

text \<open>
  Modelled from the spec: the classes \<open>Flow\<close>, \<open>Flow::Variable\<close>, \<open>Flow::Operation\<close> and
  \<open>Shape\<close> (flow.h, flow.cc) are not among the sources. The spec gives a variable an element
  type, a shape, optional constant data owned by the flow, at most one producer and a list
  of consumers, and an operation a type string, ordered input and output lists and a string
  attribute map. Variables and operations are objects of two stores, addressed by pointers;
  the flow lists the live ones in order. The producer and the consumers of a variable are
  read off the output and input edges of the live operations (one consumer entry for each
  input edge), which is the spec's invariant that the back references agree with the edges.
  Constant data points at a memory block of the flow.
\<close>

type_synonym var_ptr = nat
type_synonym op_ptr = nat
type_synonym float32 = "32 word"

record Variable =
  v_type :: Type
  v_shape :: Shape
  v_data :: "nat option"
  v_size :: int
  v_in :: bool
  v_out :: bool

record Operation =
  op_type :: string
  inputs :: "var_ptr list"
  outputs :: "var_ptr list"
  attrs :: "(string \<times> string) list"

record Flow =
  ops :: "op_ptr list"
  vars :: "var_ptr list"
  op_at :: "op_ptr \<Rightarrow> Operation"
  var_at :: "var_ptr \<Rightarrow> Variable"
  blocks :: "8 word list list"

text \<open>
  Modelled from the spec: \<open>Shape::elements\<close>, the product of the dimensions, undefined
  (\<open>-1\<close>) when a dimension is the unbounded \<open>-1\<close>; \<open>Shape::rank\<close>, the number of dimensions.
\<close>

definition elements :: "Shape \<Rightarrow> int" where
  "elements s = (if -1 \<in> set s then -1 else prod_list s)"

definition rank :: "Shape \<Rightarrow> nat" where
  "rank s = length s"

definition indegree :: "Flow \<Rightarrow> op_ptr \<Rightarrow> nat" where
  "indegree fl p = length (inputs (op_at fl p))"

definition outdegree :: "Flow \<Rightarrow> op_ptr \<Rightarrow> nat" where
  "outdegree fl p = length (outputs (op_at fl p))"

definition is_constant :: "Flow \<Rightarrow> var_ptr \<Rightarrow> bool" where
  "is_constant fl v = (v_data (var_at fl v) \<noteq> None)"

definition out :: "Flow \<Rightarrow> var_ptr \<Rightarrow> bool" where
  "out fl v = v_out (var_at fl v)"

definition consumers :: "Flow \<Rightarrow> var_ptr \<Rightarrow> op_ptr list" where
  "consumers fl v =
     concat (map (\<lambda>p. replicate (count_list (inputs (op_at fl p)) v) p) (ops fl))"

definition usages :: "Flow \<Rightarrow> var_ptr \<Rightarrow> nat" where
  "usages fl v = length (consumers fl v)"

definition producer :: "Flow \<Rightarrow> var_ptr \<Rightarrow> op_ptr option" where
  "producer fl v = find (\<lambda>p. v \<in> set (outputs (op_at fl p))) (ops fl)"

text \<open>An element of a vector; reading past its end is undefined behaviour (\<open>None\<close>).\<close>

definition at :: "'a list \<Rightarrow> nat \<Rightarrow> 'a option" where
  "at xs i = (if i < length xs then Some (xs ! i) else None)"

text \<open>A \<open>for\<close> loop over a vector whose body may fail: the first failure ends the run.\<close>

fun for_each :: "('s \<Rightarrow> 'a \<Rightarrow> 's option) \<Rightarrow> 'a list \<Rightarrow> 's \<Rightarrow> 's option" where
  "for_each f [] s = Some s"
| "for_each f (x # xs) s = (case f s x of None \<Rightarrow> None | Some s' \<Rightarrow> for_each f xs s')"

text \<open>
  Modelled from the spec: \<open>Flow::Find(pattern)\<close>, the pattern matcher over op-type adjacency.
  For a pattern of two nodes, \<open>"P|i:C"\<close> is a \<open>P\<close> whose output is input \<open>i\<close> of a \<open>C\<close>
  (\<open>"P|C"\<close> stands for input 0); the result lists the matching \<open>C\<close> operations in flow order.
\<close>

definition matches :: "Flow \<Rightarrow> string \<Rightarrow> nat \<Rightarrow> string \<Rightarrow> op_ptr \<Rightarrow> bool" where
  "matches fl P i C c =
     (op_type (op_at fl c) = C \<and>
      (case at (inputs (op_at fl c)) i of
         None \<Rightarrow> False
       | Some v \<Rightarrow>
           (case producer fl v of
              None \<Rightarrow> False
            | Some p \<Rightarrow> op_type (op_at fl p) = P \<and> at (outputs (op_at fl p)) 0 = Some v)))"

definition Find :: "Flow \<Rightarrow> string \<Rightarrow> nat \<Rightarrow> string \<Rightarrow> op_ptr list" where
  "Find fl P i C = filter (matches fl P i C) (ops fl)"

text \<open>Modelled from the spec: \<open>Flow::RemoveOperation\<close> takes the operation off the flow.\<close>

definition RemoveOperation :: "Flow \<Rightarrow> op_ptr \<Rightarrow> Flow" where
  "RemoveOperation fl p = fl\<lparr>ops := removeAll p (ops fl)\<rparr>"

text \<open>
  Modelled from the spec: \<open>Flow::Eliminate(op)\<close> removes an operation, bypassing it. For an
  operation with one input and one output, every operation that read the output reads the
  input instead, and the output variable and the operation leave the flow. Any other
  operation is only removed.
\<close>

definition redirect :: "var_ptr \<Rightarrow> var_ptr \<Rightarrow> Operation \<Rightarrow> Operation" where
  "redirect old new t = t\<lparr>inputs := map (\<lambda>v. if v = old then new else v) (inputs t)\<rparr>"

definition Eliminate :: "Flow \<Rightarrow> op_ptr \<Rightarrow> Flow" where
  "Eliminate fl p =
     (case (inputs (op_at fl p), outputs (op_at fl p)) of
        ([input], [output]) \<Rightarrow>
          RemoveOperation
            (fl\<lparr>op_at := (\<lambda>t. redirect output input (op_at fl t)),
                vars := removeAll output (vars fl)\<rparr>) p
      | _ \<Rightarrow> RemoveOperation fl p)"

text \<open>Assignment to \<open>op->type\<close>.\<close>

definition set_type :: "Flow \<Rightarrow> op_ptr \<Rightarrow> string \<Rightarrow> Flow" where
  "set_type fl p t = fl\<lparr>op_at := (op_at fl)(p := (op_at fl p)\<lparr>op_type := t\<rparr>)\<rparr>"

text \<open>\<open>std::swap(op->inputs[0], op->inputs[1])\<close>.\<close>

definition swap_inputs :: "Flow \<Rightarrow> op_ptr \<Rightarrow> Flow" where
  "swap_inputs fl p =
     (let xs = inputs (op_at fl p)
      in fl\<lparr>op_at := (op_at fl)(p := (op_at fl p)\<lparr>inputs := xs[0 := xs ! 1, 1 := xs ! 0]\<rparr>)\<rparr>)"

section \<open>The rewriting transformers (sling/myelin/kernel/arithmetic.cc)\<close>

text \<open>
  A transformer takes the flow and returns the rewritten flow with the flag \<open>updates > 0\<close>.
  The loops below read \<open>op->inputs[i]->producer\<close> and \<open>producer->outputs[0]\<close>; where the
  input, the producer or the output does not exist the C++ is undefined (\<open>None\<close>).
\<close>

text \<open>
  \<open>AddNegToSubTransformer::Transform\<close>: for each match of \<open>"Neg|1:Add"\<close>, if the output of
  the \<open>Neg\<close> has one usage and is not a flow output, eliminate the \<open>Neg\<close> and make the \<open>Add\<close> a
  \<open>Sub\<close>.
\<close>

definition AddNegToSub_body :: "Flow \<times> nat \<Rightarrow> op_ptr \<Rightarrow> (Flow \<times> nat) option" where
  "AddNegToSub_body st add =
     (case st of (fl, updates) \<Rightarrow>
      (case at (inputs (op_at fl add)) 1 of None \<Rightarrow> None | Some v \<Rightarrow>
      (case producer fl v of None \<Rightarrow> None | Some neg \<Rightarrow>
      (case at (outputs (op_at fl neg)) 0 of None \<Rightarrow> None | Some r \<Rightarrow>
         if usages fl r = 1 \<and> \<not> out fl r
         then Some (set_type (Eliminate fl neg) add ''Sub'', updates + 1)
         else Some (fl, updates)))))"

definition AddNegToSubTransformer :: "Flow \<Rightarrow> (Flow \<times> bool) option" where
  "AddNegToSubTransformer fl =
     (case for_each AddNegToSub_body (Find fl ''Neg'' 1 ''Add'') (fl, 0) of
        None \<Rightarrow> None
      | Some (fl', updates) \<Rightarrow> Some (fl', updates > 0))"

text \<open>
  Constant data. A \<open>float\<close> is kept as its 32 bits, stored in four bytes with the least
  significant first. Modelled from the spec: \<open>Flow::AllocateMemory\<close> hands out a fresh block
  owned by the flow; \<open>Variable::GetData\<close> reads the constant of a variable and fails when
  there is none. Dereferencing \<open>var->data\<close> where no four bytes are stored is undefined.
  The division \<open>1.0 / c\<close> is IEEE arithmetic, taken as the parameter \<open>reciprocal\<close>; the test
  \<open>value == 1.0\<close> holds for one bit pattern only.
\<close>

definition float_of_bytes :: "8 word list \<Rightarrow> float32 option" where
  "float_of_bytes bs =
     (case bs of
        b0 # b1 # b2 # b3 # rest \<Rightarrow>
          Some (of_nat (unat b0 + 256 * unat b1 + 65536 * unat b2 + 16777216 * unat b3))
      | _ \<Rightarrow> None)"

definition bytes_of_float :: "float32 \<Rightarrow> 8 word list" where
  "bytes_of_float w =
     [of_nat (unat w mod 256), of_nat (unat w div 256 mod 256),
      of_nat (unat w div 65536 mod 256), of_nat (unat w div 16777216 mod 256)]"

definition float_one :: float32 where
  "float_one = 0x3F800000"

definition read_float :: "Flow \<Rightarrow> var_ptr \<Rightarrow> float32 option" where
  "read_float fl v =
     (case v_data (var_at fl v) of
        None \<Rightarrow> None
      | Some a \<Rightarrow> (case at (blocks fl) a of None \<Rightarrow> None | Some bs \<Rightarrow> float_of_bytes bs))"

definition GetData :: "Flow \<Rightarrow> var_ptr \<Rightarrow> float32 option" where
  "GetData fl v = read_float fl v"

definition AllocateMemory :: "Flow \<Rightarrow> nat \<Rightarrow> Flow \<times> nat" where
  "AllocateMemory fl n = (fl\<lparr>blocks := blocks fl @ [replicate n 0]\<rparr>, length (blocks fl))"

definition write_float :: "Flow \<Rightarrow> nat \<Rightarrow> float32 \<Rightarrow> Flow" where
  "write_float fl a w = fl\<lparr>blocks := (blocks fl)[a := bytes_of_float w]\<rparr>"

definition set_data :: "Flow \<Rightarrow> var_ptr \<Rightarrow> nat \<Rightarrow> Flow" where
  "set_data fl v a = fl\<lparr>var_at := (var_at fl)(v := (var_at fl v)\<lparr>v_data := Some a\<rparr>)\<rparr>"

text \<open>
  Modelled from the spec: \<open>Operation::RemoveInput\<close> drops the input edge from the variable
  to the operation.
\<close>

definition RemoveInput :: "Flow \<Rightarrow> op_ptr \<Rightarrow> var_ptr \<Rightarrow> Flow" where
  "RemoveInput fl p v =
     fl\<lparr>op_at := (op_at fl)(p := (op_at fl p)\<lparr>inputs := remove1 v (inputs (op_at fl p))\<rparr>)\<rparr>"

text \<open>
  \<open>DivTransformer::Transform\<close>, first loop: \<open>Div(x, c)\<close> with a one-element float constant
  \<open>c\<close> of one usage becomes \<open>Mul(x, 1/c)\<close>; otherwise \<open>Div(1, x)\<close> becomes \<open>Reciprocal(x)\<close>.
  \<open>CHECK_EQ(second->size, sizeof(float))\<close> aborts the run when it fails (\<open>None\<close>).
\<close>

definition DivToMul_body ::
  "(float32 \<Rightarrow> float32) \<Rightarrow> Flow \<times> nat \<Rightarrow> op_ptr \<Rightarrow> (Flow \<times> nat) option" where
  "DivToMul_body reciprocal st p =
     (case st of (fl, updates) \<Rightarrow>
      if op_type (op_at fl p) \<noteq> ''Div'' \<and> op_type (op_at fl p) \<noteq> ''RealDiv'' then Some (fl, updates)
      else if indegree fl p \<noteq> 2 then Some (fl, updates)
      else
        (let first = inputs (op_at fl p) ! 0; second = inputs (op_at fl p) ! 1
         in if v_type (var_at fl second) = DT_FLOAT \<and> elements (v_shape (var_at fl second)) = 1 \<and>
               is_constant fl second \<and> usages fl second = 1
            then (if v_size (var_at fl second) \<noteq> 4 then None
                  else (case read_float fl second of
                          None \<Rightarrow> None
                        | Some c \<Rightarrow>
                            (case AllocateMemory (set_type fl p ''Mul'') 4 of
                               (fl1, buffer) \<Rightarrow>
                                 Some (set_data (write_float fl1 buffer (reciprocal c)) second buffer,
                                       updates + 1))))
            else if v_type (var_at fl first) = DT_FLOAT \<and> elements (v_shape (var_at fl first)) = 1 \<and>
               is_constant fl first
            then (case GetData fl first of
                    None \<Rightarrow> Some (fl, updates)
                  | Some val \<Rightarrow>
                      if val = float_one
                      then Some (RemoveInput (set_type fl p ''Reciprocal'') p first, updates + 1)
                      else Some (fl, updates))
            else Some (fl, updates)))"

text \<open>
  Second loop: for each match of \<open>"Sqrt|Reciprocal"\<close>, unless the output of the \<open>Sqrt\<close> has
  more than one usage or is a flow output, eliminate the \<open>Sqrt\<close> and make the \<open>Reciprocal\<close> an
  \<open>Rsqrt\<close>.
\<close>

definition Rsqrt_body :: "Flow \<times> nat \<Rightarrow> op_ptr \<Rightarrow> (Flow \<times> nat) option" where
  "Rsqrt_body st rcp =
     (case st of (fl, updates) \<Rightarrow>
      (case at (inputs (op_at fl rcp)) 0 of None \<Rightarrow> None | Some v \<Rightarrow>
      (case producer fl v of None \<Rightarrow> None | Some sqrt \<Rightarrow>
      (case at (outputs (op_at fl sqrt)) 0 of None \<Rightarrow> None | Some r \<Rightarrow>
         if usages fl r > 1 then Some (fl, updates)
         else if out fl r then Some (fl, updates)
         else Some (set_type (Eliminate fl sqrt) rcp ''Rsqrt'', updates + 1)))))"

definition DivTransformer :: "(float32 \<Rightarrow> float32) \<Rightarrow> Flow \<Rightarrow> (Flow \<times> bool) option" where
  "DivTransformer reciprocal fl =
     (case for_each (DivToMul_body reciprocal) (ops fl) (fl, 0) of
        None \<Rightarrow> None
      | Some (fl1, updates1) \<Rightarrow>
          (case for_each Rsqrt_body (Find fl1 ''Sqrt'' 0 ''Reciprocal'') (fl1, updates1) of
             None \<Rightarrow> None
           | Some (fl2, updates2) \<Rightarrow> Some (fl2, updates2 > 0)))"

text \<open>
  \<open>LogicTransformer\<close>. \<open>FoldNotCompare\<close> folds a negation into the comparison that feeds it;
  \<open>EliminateDoubleNegation\<close> lets the consumers of \<open>Not(Not(x))\<close> read \<open>x\<close> and removes the
  negations that are left without usage. The result \<open>(again, flow)\<close> carries the return value.
\<close>

definition FoldNotCompare :: "Flow \<Rightarrow> op_ptr \<Rightarrow> op_ptr \<Rightarrow> string \<Rightarrow> (bool \<times> Flow) option" where
  "FoldNotCompare fl cmp neg replacement =
     (case at (outputs (op_at fl cmp)) 0 of
        None \<Rightarrow> None
      | Some r \<Rightarrow>
          if usages fl r \<noteq> 1 then Some (False, fl)
          else if out fl r then Some (False, fl)
          else Some (True, set_type (Eliminate fl neg) cmp replacement))"

definition remove_if_unused :: "Flow \<Rightarrow> op_ptr \<Rightarrow> Flow option" where
  "remove_if_unused fl neg =
     (case at (outputs (op_at fl neg)) 0 of
        None \<Rightarrow> None
      | Some r \<Rightarrow> Some (if usages fl r = 0 \<and> \<not> out fl r then RemoveOperation fl neg else fl))"

definition EliminateDoubleNegation :: "Flow \<Rightarrow> op_ptr \<Rightarrow> op_ptr \<Rightarrow> (bool \<times> Flow) option" where
  "EliminateDoubleNegation fl neg1 neg2 =
     (case at (outputs (op_at fl neg2)) 0 of
        None \<Rightarrow> None
      | Some result \<Rightarrow>
          (case (if consumers fl result = [] then Some fl
                 else (case at (inputs (op_at fl neg1)) 0 of
                         None \<Rightarrow> None
                       | Some x \<Rightarrow> Some (fl\<lparr>op_at := (\<lambda>t. redirect result x (op_at fl t))\<rparr>))) of
             None \<Rightarrow> None
           | Some fl1 \<Rightarrow>
               (case remove_if_unused fl1 neg2 of
                  None \<Rightarrow> None
                | Some fl2 \<Rightarrow>
                    (case remove_if_unused fl2 neg1 of
                       None \<Rightarrow> None
                     | Some fl3 \<Rightarrow> Some (True, fl3)))))"

definition fold_negation :: "Flow \<Rightarrow> op_ptr \<Rightarrow> (bool \<times> Flow) option" where
  "fold_negation fl p =
     (if op_type (op_at fl p) \<noteq> ''Not'' \<or> indegree fl p \<noteq> 1 then Some (False, fl)
      else case producer fl (inputs (op_at fl p) ! 0) of
             None \<Rightarrow> Some (False, fl)
           | Some q \<Rightarrow>
               (let t = op_type (op_at fl q)
                in if t = ''Not'' then EliminateDoubleNegation fl q p
                   else if t = ''Equal'' then FoldNotCompare fl q p ''NotEqual''
                   else if t = ''NotEqual'' then FoldNotCompare fl q p ''Equal''
                   else if t = ''Less'' then FoldNotCompare fl q p ''GreaterEqual''
                   else if t = ''LessEqual'' then FoldNotCompare fl q p ''Greater''
                   else if t = ''Greater'' then FoldNotCompare fl q p ''LessEqual''
                   else if t = ''GreaterEqual'' then FoldNotCompare fl q p ''Less''
                   else Some (False, fl)))"

text \<open>One run of the inner \<open>for\<close> loop: it stops at the first operation that was rewritten.\<close>

fun fold_scan :: "Flow \<Rightarrow> op_ptr list \<Rightarrow> (bool \<times> Flow) option" where
  "fold_scan fl [] = Some (False, fl)"
| "fold_scan fl (p # rest) =
     (case fold_negation fl p of
        None \<Rightarrow> None
      | Some (again, fl') \<Rightarrow> if again then Some (True, fl') else fold_scan fl' rest)"

text \<open>The loop \<open>while (again)\<close>; a run that never leaves it has no result.\<close>

partial_function (option) fold_negations :: "Flow \<Rightarrow> nat \<Rightarrow> (Flow \<times> nat) option" where
  "fold_negations fl num_updates =
     (case fold_scan fl (ops fl) of
        None \<Rightarrow> None
      | Some (again, fl') \<Rightarrow>
          if again then fold_negations fl' (num_updates + 1) else Some (fl', num_updates))"

text \<open>
  The two loops that merge a negation into a logical and, over the matches of \<open>"Not|0:And"\<close>
  and of \<open>"Not|1:And"\<close>; the second swaps the two inputs of the \<open>AndNot\<close>.
\<close>

definition AndNot0_body :: "Flow \<times> nat \<Rightarrow> op_ptr \<Rightarrow> (Flow \<times> nat) option" where
  "AndNot0_body st logand =
     (case st of (fl, num_updates) \<Rightarrow>
      (case at (inputs (op_at fl logand)) 0 of None \<Rightarrow> None | Some v \<Rightarrow>
      (case producer fl v of None \<Rightarrow> None | Some logneg \<Rightarrow>
      (case at (outputs (op_at fl logneg)) 0 of None \<Rightarrow> None | Some r \<Rightarrow>
         if usages fl r = 1 \<and> \<not> out fl r
         then Some (set_type (Eliminate fl logneg) logand ''AndNot'', num_updates + 1)
         else Some (fl, num_updates)))))"

definition AndNot1_body :: "Flow \<times> nat \<Rightarrow> op_ptr \<Rightarrow> (Flow \<times> nat) option" where
  "AndNot1_body st logand =
     (case st of (fl, num_updates) \<Rightarrow>
      (case at (inputs (op_at fl logand)) 1 of None \<Rightarrow> None | Some v \<Rightarrow>
      (case producer fl v of None \<Rightarrow> None | Some logneg \<Rightarrow>
      (case at (outputs (op_at fl logneg)) 0 of None \<Rightarrow> None | Some r \<Rightarrow>
         if usages fl r = 1 \<and> \<not> out fl r
         then Some (swap_inputs (set_type (Eliminate fl logneg) logand ''AndNot'') logand,
                    num_updates + 1)
         else Some (fl, num_updates)))))"

definition merge_negations :: "Flow \<times> nat \<Rightarrow> (Flow \<times> nat) option" where
  "merge_negations st =
     (case for_each AndNot0_body (Find (fst st) ''Not'' 0 ''And'') st of
        None \<Rightarrow> None
      | Some st1 \<Rightarrow> for_each AndNot1_body (Find (fst st1) ''Not'' 1 ''And'') st1)"

definition LogicTransformer :: "Flow \<Rightarrow> (Flow \<times> bool) option" where
  "LogicTransformer fl =
     (case fold_negations fl 0 of
        None \<Rightarrow> None
      | Some st \<Rightarrow>
          (case merge_negations st of
             None \<Rightarrow> None
           | Some (fl', num_updates) \<Rightarrow> Some (fl', num_updates > 0)))"

section \<open>Auxiliary notions for the proofs\<close>

text \<open>
  The three pattern loops (\<open>"Neg|1:Add"\<close>, \<open>"Sqrt|Reciprocal"\<close>, \<open>"Not|i:And"\<close>) have one
  shape: look up the producer \<open>p\<close> of input \<open>i\<close> of the match \<open>c\<close>, test the usages and the
  output flag of the first output of \<open>p\<close>, and if the test passes eliminate \<open>p\<close>, give \<open>c\<close> the
  type \<open>T\<close> and possibly swap its first two inputs. \<open>bypass_body\<close> is that shape; each loop
  body of the source is shown to be an instance of it.
\<close>

definition bypass_body ::
  "string \<Rightarrow> nat \<Rightarrow> (nat \<Rightarrow> bool) \<Rightarrow> bool \<Rightarrow> Flow \<times> nat \<Rightarrow> op_ptr \<Rightarrow> (Flow \<times> nat) option" where
  "bypass_body T i ok sw st c =
     (case st of (fl, updates) \<Rightarrow>
      (case at (inputs (op_at fl c)) i of None \<Rightarrow> None | Some v \<Rightarrow>
      (case producer fl v of None \<Rightarrow> None | Some p \<Rightarrow>
      (case at (outputs (op_at fl p)) 0 of None \<Rightarrow> None | Some r \<Rightarrow>
         if ok (usages fl r) \<and> \<not> out fl r
         then Some (if sw then swap_inputs (set_type (Eliminate fl p) c T) c
                    else set_type (Eliminate fl p) c T, updates + 1)
         else Some (fl, updates)))))"

text \<open>Every live operation of type \<open>P\<close> has one input and one output.\<close>

definition unary :: "Flow \<Rightarrow> string \<Rightarrow> bool" where
  "unary fl P =
     (\<forall>p \<in> set (ops fl). op_type (op_at fl p) = P \<longrightarrow>
        length (inputs (op_at fl p)) = 1 \<and> length (outputs (op_at fl p)) = 1)"

text \<open>
  The operations at which the loop of \<open>LogicTransformer\<close> that folds negations rewrites the
  flow: a \<open>Not\<close> with one input that reads the output of another \<open>Not\<close>, or the output of a
  comparison that has one usage and is not a flow output.
\<close>

definition comparisons :: "string list" where
  "comparisons = [''Equal'', ''NotEqual'', ''Less'', ''LessEqual'', ''Greater'', ''GreaterEqual'']"

definition foldable :: "Flow \<Rightarrow> op_ptr \<Rightarrow> bool" where
  "foldable fl p =
     (op_type (op_at fl p) = ''Not'' \<and> indegree fl p = 1 \<and>
      (case producer fl (inputs (op_at fl p) ! 0) of
         None \<Rightarrow> False
       | Some q \<Rightarrow>
           op_type (op_at fl q) = ''Not'' \<or>
           op_type (op_at fl q) \<in> set comparisons \<and>
           usages fl (outputs (op_at fl q) ! 0) = 1 \<and> \<not> out fl (outputs (op_at fl q) ! 0)))"

text \<open>The flow after one rewrite of the match \<open>c\<close> with producer \<open>p\<close>.\<close>

definition bypassed :: "string \<Rightarrow> bool \<Rightarrow> Flow \<Rightarrow> op_ptr \<Rightarrow> op_ptr \<Rightarrow> Flow" where
  "bypassed T sw fl p c =
     (if sw then swap_inputs (set_type (Eliminate fl p) c T) c else set_type (Eliminate fl p) c T)"

definition swapped :: "bool \<Rightarrow> var_ptr list \<Rightarrow> var_ptr list" where
  "swapped sw ys = (if sw then ys[0 := ys ! 1, 1 := ys ! 0] else ys)"

text \<open>
  The state of a pattern loop: the operations of the flow are distinct, the \<open>P\<close> operations
  are unary, and the matches still to be visited are distinct live matches.
\<close>

definition live_matches :: "Flow \<Rightarrow> string \<Rightarrow> nat \<Rightarrow> string \<Rightarrow> op_ptr list \<Rightarrow> bool" where
  "live_matches fl P i C ms =
     (distinct (ops fl) \<and> unary fl P \<and> distinct ms \<and>
      (\<forall>c \<in> set ms. c \<in> set (ops fl) \<and> matches fl P i C c))"

section \<open>Example flows\<close>

definition example_op :: "string \<Rightarrow> var_ptr list \<Rightarrow> var_ptr list \<Rightarrow> Operation" where
  "example_op t ins outs = \<lparr>op_type = t, inputs = ins, outputs = outs, attrs = []\<rparr>"

definition example_var :: "bool \<Rightarrow> Variable" where
  "example_var is_out =
     \<lparr>v_type = DT_FLOAT, v_shape = [8], v_data = None, v_size = 32, v_in = False, v_out = is_out\<rparr>"

text \<open>\<open>y = Add(a, Neg(b))\<close>: variables \<open>a = 0\<close>, \<open>b = 1\<close>, the output of the \<open>Neg\<close> \<open>2\<close> and \<open>y = 3\<close>;
  the flag says whether the output of the \<open>Neg\<close> is a flow output.\<close>

definition add_neg_flow :: "bool \<Rightarrow> Flow" where
  "add_neg_flow neg_out =
     \<lparr>ops = [0, 1], vars = [0, 1, 2, 3],
      op_at = (\<lambda>p. if p = 0 then example_op ''Neg'' [1] [2] else example_op ''Add'' [0, 2] [3]),
      var_at = (\<lambda>v. example_var (v = 3 \<or> (v = 2 \<and> neg_out))),
      blocks = []\<rparr>"

text \<open>\<open>y = Div(one, Sqrt(x))\<close>, the spec's scenario \<open>y = 1 / Sqrt(x)\<close>: variables \<open>x = 0\<close>, the
  output of the \<open>Sqrt\<close> \<open>1\<close>, the constant \<open>one = 2\<close> and \<open>y = 3\<close>; the flag says whether the
  output of the \<open>Sqrt\<close> is a flow output.\<close>

definition rsqrt_flow :: "bool \<Rightarrow> Flow" where
  "rsqrt_flow sqrt_out =
     \<lparr>ops = [0, 1], vars = [0, 1, 2, 3],
      op_at = (\<lambda>p. if p = 0 then example_op ''Sqrt'' [0] [1] else example_op ''Div'' [2, 1] [3]),
      var_at = (\<lambda>v. if v = 2
                     then \<lparr>v_type = DT_FLOAT, v_shape = [], v_data = Some 0, v_size = 4,
                           v_in = False, v_out = False\<rparr>
                     else example_var (v = 3 \<or> (v = 1 \<and> sqrt_out))),
      blocks = [[0, 0, 0x80, 0x3F]]\<rparr>"

text \<open>\<open>z = And(Not(x), y)\<close> or \<open>z = And(y, Not(x))\<close>: variables \<open>x = 0\<close>, the output of the \<open>Not\<close>
  \<open>1\<close>, \<open>y = 2\<close> and \<open>z = 3\<close>; the flag says whether the negation is the first operand.\<close>

definition and_not_flow :: "bool \<Rightarrow> Flow" where
  "and_not_flow negation_first =
     \<lparr>ops = [0, 1], vars = [0, 1, 2, 3],
      op_at = (\<lambda>p. if p = 0 then example_op ''Not'' [0] [1]
                    else example_op ''And'' (if negation_first then [1, 2] else [2, 1]) [3]),
      var_at = (\<lambda>v. example_var (v = 3)),
      blocks = []\<rparr>"

text \<open>
  Every one-element float constant has the size of a \<open>float\<close> and four readable bytes of
  data: the condition under which the \<open>CHECK\<close> and the reads of the first loop of
  \<open>DivTransformer\<close> succeed.
\<close>

definition float_constants_ok :: "Flow \<Rightarrow> bool" where
  "float_constants_ok fl =
     (\<forall>v. v_type (var_at fl v) = DT_FLOAT \<and> elements (v_shape (var_at fl v)) = 1 \<and>
          is_constant fl v \<longrightarrow>
          v_size (var_at fl v) = 4 \<and> read_float fl v \<noteq> None)"

text \<open>The flow after the two rewrites of the first loop of \<open>DivTransformer\<close>.\<close>

definition mul_result :: "(float32 \<Rightarrow> float32) \<Rightarrow> Flow \<Rightarrow> op_ptr \<Rightarrow> var_ptr \<Rightarrow> float32 \<Rightarrow> Flow" where
  "mul_result rc fl p c val =
     fl\<lparr>op_at := (op_at fl)(p := (op_at fl p)\<lparr>op_type := ''Mul''\<rparr>),
        var_at := (var_at fl)(c := (var_at fl c)\<lparr>v_data := Some (length (blocks fl))\<rparr>),
        blocks := blocks fl @ [bytes_of_float (rc val)]\<rparr>"

definition rcp_result :: "Flow \<Rightarrow> op_ptr \<Rightarrow> var_ptr \<Rightarrow> Flow" where
  "rcp_result fl p x =
     fl\<lparr>op_at := (op_at fl)(p := (op_at fl p)\<lparr>op_type := ''Reciprocal'',
          inputs := remove1 x (inputs (op_at fl p))\<rparr>)\<rparr>"

text \<open>\<open>y = Div(x, c)\<close> with the constant \<open>c = 2.0\<close>: variables \<open>x = 0\<close>, \<open>c = 1\<close>, \<open>y = 2\<close>.\<close>

definition div_flow :: Flow where
  "div_flow =
     \<lparr>ops = [0], vars = [0, 1, 2],
      op_at = (\<lambda>p. example_op ''Div'' [0, 1] [2]),
      var_at = (\<lambda>v. if v = 1
                     then \<lparr>v_type = DT_FLOAT, v_shape = [], v_data = Some 0, v_size = 4,
                           v_in = False, v_out = False\<rparr>
                     else example_var (v = 2)),
      blocks = [[0, 0, 0, 0x40]]\<rparr>"

text \<open>A stand-in for the division that is right at \<open>2.0\<close>: \<open>1 / 2.0 = 0.5\<close>.\<close>

definition example_reciprocal :: "float32 \<Rightarrow> float32" where
  "example_reciprocal w = (if w = 0x40000000 then 0x3F000000 else 0)"

section \<open>Expressions\<close>

text \<open>
  Modelled from the spec: the class \<open>Express\<close> (express.h, express.cc) is not among the
  sources. The spec describes the expression IR as a flat list of typed variables (input,
  output, const, number, temp) and a list of operations, with the reductions among them. A
  variable is an object with a type, an id and the flag \<open>single\<close>; a pointer to a variable is
  its place in the list of the expression that holds it. An operation has a type, a result
  and arguments. The usages of a variable are the argument places that name it.
\<close>

datatype VarType = INPUT | CONST' | OUTPUT | TEMP | NUMBER

datatype OpType =
    MOV | ADD | SUB | MUL | DIV | MINIMUM | MAXIMUM
  | LOG | EXP | SIGMOID | ERF
  | SIN | COS | TAN | COT | SEC | CSC
  | ASIN | ACOS | ATAN | ACOT | ASEC | ACSC
  | SINH | COSH | TANH | COTH | SECH | CSCH
  | ASINH | ACOSH | ATANH | ACOTH | ASECH | ACSCH
  | NEG | ABS | SIGN | RELU | SOFTSIGN | SOFTPLUS | LOGSIGMOID | RECIPROCAL | SQUARE | SQRT
  | RSQRT
  | CMPEQOQ | CMPNEUQ | CMPLTOQ | CMPLEOQ | CMPGTOQ | CMPGEOQ
  | COND | SELECT
  | AND | OR | XOR | ANDNOT | NOT
  | SUM' | PRODUCT | MIN' | MAX' | ALL' | ANY | COUNT
  | INVALID

type_synonym xvar_ptr = nat

record Var =
  var_type :: VarType
  var_id :: int
  single :: bool

record Op =
  kind :: OpType
  result :: "xvar_ptr option"
  args :: "xvar_ptr list"

record Express =
  evars :: "Var list"
  eops :: "Op list"

definition empty_express :: Express where
  "empty_express = \<lparr>evars = [], eops = []\<rparr>"

text \<open>\<open>Lookup(type, id)\<close>: the first variable of that type and id, or null.\<close>

fun first_index :: "('a \<Rightarrow> bool) \<Rightarrow> 'a list \<Rightarrow> nat option" where
  "first_index P [] = None"
| "first_index P (x # xs) = (if P x then Some 0 else map_option Suc (first_index P xs))"

definition Lookup :: "Express \<Rightarrow> VarType \<Rightarrow> int \<Rightarrow> xvar_ptr option" where
  "Lookup e t i = first_index (\<lambda>v. var_type v = t \<and> var_id v = i) (evars e)"

text \<open>\<open>Variable(type, id)\<close>: the variable of that type and id, added to the list when there is
  none (and always for the id \<open>-1\<close> of a temporary that has no number yet).\<close>

definition Variable :: "Express \<Rightarrow> VarType \<Rightarrow> int \<Rightarrow> xvar_ptr \<times> Express" where
  "Variable e t i =
     (case (if i = -1 then None else Lookup e t i) of
        Some p \<Rightarrow> (p, e)
      | None \<Rightarrow>
          (length (evars e),
           e\<lparr>evars := evars e @ [\<lparr>var_type = t, var_id = i, single = False\<rparr>]\<rparr>))"

text \<open>Assignment to the members of the variable at an address.\<close>

definition update_var :: "Express \<Rightarrow> xvar_ptr \<Rightarrow> (Var \<Rightarrow> Var) \<Rightarrow> Express" where
  "update_var e p f = e\<lparr>evars := (evars e)[p := f (evars e ! p)]\<rparr>"

definition var_usages :: "Express \<Rightarrow> xvar_ptr \<Rightarrow> nat" where
  "var_usages e p = sum_list (map (\<lambda>x. count_list (args x) p) (eops e))"

text \<open>\<open>Op::reduction()\<close>: the operation is one of the reductions.\<close>

definition reduction :: "Op \<Rightarrow> bool" where
  "reduction x = (kind x \<in> {SUM', PRODUCT, MIN', MAX', ALL', ANY, COUNT})"

text \<open>\<open>CompactTempVars\<close>: the temporaries are numbered in the order of the list.\<close>

fun number_temps :: "int \<Rightarrow> Var list \<Rightarrow> Var list" where
  "number_temps n [] = []"
| "number_temps n (v # rest) =
     (if var_type v = TEMP
      then v\<lparr>var_id := n\<rparr> # number_temps (n + 1) rest
      else v # number_temps n rest)"

definition CompactTempVars :: "Express \<Rightarrow> Express" where
  "CompactTempVars e = e\<lparr>evars := number_temps 0 (evars e)\<rparr>"

text \<open>
  \<open>Merge(other, varmap)\<close>: the variables of the other expression that the map does not name
  are moved to the end of the list, in order; its operations are appended, their results and
  arguments naming the mapped or the moved variables; and the temporaries are numbered again
  when one was moved.
\<close>

definition merged_var :: "Express \<Rightarrow> (xvar_ptr \<rightharpoonup> xvar_ptr) \<Rightarrow> xvar_ptr \<Rightarrow> xvar_ptr" where
  "merged_var e varmap j =
     (case varmap j of
        Some q \<Rightarrow> q
      | None \<Rightarrow> length (evars e) + length (filter (\<lambda>k. varmap k = None) [0..<j]))"

definition Merge :: "Express \<Rightarrow> Express \<Rightarrow> (xvar_ptr \<rightharpoonup> xvar_ptr) \<Rightarrow> Express" where
  "Merge e other varmap =
     (let moved = map (\<lambda>j. evars other ! j)
                    (filter (\<lambda>j. varmap j = None) [0..<length (evars other)]);
          e1 = \<lparr>evars = evars e @ moved,
                eops = eops e @
                  map (\<lambda>x. x\<lparr>result := map_option (merged_var e varmap) (result x),
                              args := map (merged_var e varmap) (args x)\<rparr>) (eops other)\<rparr>
      in if list_ex (\<lambda>v. var_type v = TEMP) moved then CompactTempVars e1 else e1)"

text \<open>
  Parsing and printing of recipes, the removal of redundant moves and the numbers of the
  system constants belong to \<open>Express\<close> as well; they are parameters of the model.
\<close>

record Recipes =
  Parse :: "string \<Rightarrow> Express"
  AsRecipe :: "Express \<Rightarrow> string"
  EliminateRedundantMoves :: "Express \<Rightarrow> Express"
  ZERO :: int
  ONE :: int
  HALF :: int
  TWO :: int
  N1 :: int


section \<open>Expression fusion (sling/myelin/kernel/arithmetic.cc)\<close>

text \<open>The table of \<open>OpType\<close>: the operations that can be fused into \<open>Calculate\<close> operations.\<close>

definition OpType_table :: "(string \<times> OpType) list" where
  "OpType_table =
    [(''Add'', ADD), (''Sub'', SUB), (''Mul'', MUL), (''Div'', DIV), (''RealDiv'', DIV),
     (''Minimum'', MINIMUM), (''Maximum'', MAXIMUM),
     (''Log'', LOG), (''Exp'', EXP), (''Sigmoid'', SIGMOID), (''Erf'', ERF),
     (''Sin'', SIN), (''Cos'', COS), (''Tan'', TAN), (''Cot'', COT), (''Sec'', SEC), (''Csc'', CSC),
     (''Asin'', ASIN), (''Acos'', ACOS), (''Atan'', ATAN), (''Acot'', ACOT), (''Asec'', ASEC),
     (''Acsc'', ACSC),
     (''Sinh'', SINH), (''Cosh'', COSH), (''Tanh'', TANH), (''Coth'', COTH), (''Sech'', SECH),
     (''Csch'', CSCH),
     (''Asinh'', ASINH), (''Acosh'', ACOSH), (''Atanh'', ATANH), (''Acoth'', ACOTH),
     (''Asech'', ASECH), (''Acsch'', ACSCH),
     (''Neg'', NEG), (''Abs'', ABS), (''Sign'', SIGN), (''Relu'', RELU), (''Softsign'', SOFTSIGN),
     (''Softplus'', SOFTPLUS), (''LogSigmoid'', LOGSIGMOID), (''Reciprocal'', RECIPROCAL),
     (''Square'', SQUARE), (''Sqrt'', SQRT), (''Rsqrt'', RSQRT),
     (''Equal'', CMPEQOQ), (''NotEqual'', CMPNEUQ), (''Less'', CMPLTOQ), (''LessEqual'', CMPLEOQ),
     (''Greater'', CMPGTOQ), (''GreaterEqual'', CMPGEOQ),
     (''Cond'', COND), (''Select'', SELECT),
     (''And'', AND), (''Or'', OR), (''Xor'', XOR), (''AndNot'', ANDNOT), (''Not'', NOT),
     (''Sum'', SUM'), (''Product'', PRODUCT), (''Min'', MIN'), (''Max'', MAX'), (''All'', ALL'),
     (''Any'', ANY), (''Count'', COUNT),
     (''Identity'', MOV)]"

definition OpType :: "string \<Rightarrow> OpType" where
  "OpType t = (case map_of OpType_table t of None \<Rightarrow> INVALID | Some k \<Rightarrow> k)"

definition IsCalculateOp :: "Flow \<Rightarrow> op_ptr \<Rightarrow> bool" where
  "IsCalculateOp fl p = (op_type (op_at fl p) = ''Calculate'' \<or> OpType (op_type (op_at fl p)) \<noteq> INVALID)"

definition IsAssignmentOp :: "Flow \<Rightarrow> op_ptr \<Rightarrow> bool" where
  "IsAssignmentOp fl p = (op_type (op_at fl p) = ''Assign'')"

text \<open>
  Modelled from the spec: the attribute map of an operation. \<open>GetAttr(name)\<close> is the value
  stored for the name, or the empty string; \<open>GetAttr(name, false)\<close> says whether the operation
  carries the attribute as a set flag; \<open>SetAttr\<close> stores a value.
\<close>

definition GetAttr :: "Flow \<Rightarrow> op_ptr \<Rightarrow> string \<Rightarrow> string" where
  "GetAttr fl p name = (case map_of (attrs (op_at fl p)) name of None \<Rightarrow> [] | Some v \<Rightarrow> v)"

definition GetAttr_bool :: "Flow \<Rightarrow> op_ptr \<Rightarrow> string \<Rightarrow> bool" where
  "GetAttr_bool fl p name =
     (case map_of (attrs (op_at fl p)) name of
        None \<Rightarrow> False
      | Some v \<Rightarrow> v = ''1'' \<or> v = ''T'' \<or> v = ''true'')"

definition SetAttr :: "Flow \<Rightarrow> op_ptr \<Rightarrow> string \<Rightarrow> string \<Rightarrow> Flow" where
  "SetAttr fl p name v =
     fl\<lparr>op_at := (op_at fl)(p := (op_at fl p)
          \<lparr>attrs := (name, v) # filter (\<lambda>a. fst a \<noteq> name) (attrs (op_at fl p))\<rparr>)\<rparr>"

text \<open>
  The value of a one-element float or double constant, compared with the system constants.
  A \<open>double\<close> is kept as its 64 bits, least significant byte first; \<open>value == 0.0\<close> holds for
  both zeros. The result is the \<open>const_id\<close> of the source, \<open>-1\<close> when no system constant fits;
  reading data that is not there is undefined.
\<close>

definition double_of_bytes :: "8 word list \<Rightarrow> 64 word option" where
  "double_of_bytes bs =
     (if length bs < 8 then None
      else Some (of_nat (foldr (\<lambda>b n. unat b + 256 * n) (take 8 bs) 0)))"

definition float_const_id :: "Recipes \<Rightarrow> float32 \<Rightarrow> int" where
  "float_const_id R w =
     (if w = 0 \<or> w = 0x80000000 then ZERO R
      else if w = 0x3F800000 then ONE R
      else if w = 0x3F000000 then HALF R
      else if w = 0x40000000 then TWO R
      else if w = 0xBF800000 then N1 R
      else -1)"

definition double_const_id :: "Recipes \<Rightarrow> 64 word \<Rightarrow> int" where
  "double_const_id R w =
     (if w = 0 \<or> w = 0x8000000000000000 then ZERO R
      else if w = 0x3FF0000000000000 then ONE R
      else if w = 0x3FE0000000000000 then HALF R
      else if w = 0x4000000000000000 then TWO R
      else if w = 0xBFF0000000000000 then N1 R
      else -1)"

definition const_id :: "Recipes \<Rightarrow> Flow \<Rightarrow> var_ptr \<Rightarrow> int option" where
  "const_id R fl input =
     (if is_constant fl input \<and>
         (v_type (var_at fl input) = DT_FLOAT \<or> v_type (var_at fl input) = DT_DOUBLE)
      then (if v_type (var_at fl input) = DT_FLOAT
            then map_option (float_const_id R) (read_float fl input)
            else (case v_data (var_at fl input) of
                    None \<Rightarrow> None
                  | Some a \<Rightarrow>
                      (case at (blocks fl) a of
                         None \<Rightarrow> None
                       | Some bs \<Rightarrow> map_option (double_const_id R) (double_of_bytes bs))))
      else Some (-1))"

text \<open>\<open>InitExpression(Flow::Operation *op, Express *expr)\<close>, the loop that marks constant and
  scalar inputs: one round for input \<open>i\<close>.\<close>

definition mark_input :: "Recipes \<Rightarrow> Flow \<Rightarrow> op_ptr \<Rightarrow> Express option \<Rightarrow> nat \<Rightarrow> Express option" where
  "mark_input R fl p eo i =
     (case eo of
        None \<Rightarrow> None
      | Some e \<Rightarrow>
          (let input = inputs (op_at fl p) ! i
           in if elements (v_shape (var_at fl input)) = 1
              then (case const_id R fl input of
                      None \<Rightarrow> None
                    | Some cid \<Rightarrow>
                        (case Variable e INPUT (int i) of
                           (var, e1) \<Rightarrow>
                             Some (if cid \<noteq> -1
                                   then update_var e1 var (\<lambda>v. v\<lparr>var_type := NUMBER, var_id := cid\<rparr>)
                                   else if is_constant fl input
                                   then update_var e1 var (\<lambda>v. v\<lparr>var_type := CONST'\<rparr>)
                                   else update_var e1 var (\<lambda>v. v\<lparr>single := True\<rparr>))))
              else Some e))"

text \<open>The variables \<open>Variable(type, i)\<close> for a list of ids, in order.\<close>

fun Variables :: "Express \<Rightarrow> VarType \<Rightarrow> nat list \<Rightarrow> xvar_ptr list \<times> Express" where
  "Variables e t [] = ([], e)"
| "Variables e t (i # rest) =
     (case Variable e t (int i) of
        (p, e1) \<Rightarrow> (case Variables e1 t rest of (ps, e2) \<Rightarrow> (p # ps, e2)))"

text \<open>The expression of a plain operation: one function of the inputs, assigned to output 0.\<close>

definition function_expression :: "string \<Rightarrow> nat \<Rightarrow> Express" where
  "function_expression t n =
     (case Variables empty_express INPUT [0..<n] of
        (as, e1) \<Rightarrow>
          (case Variable e1 OUTPUT 0 of
             (r, e2) \<Rightarrow>
               CompactTempVars
                 (e2\<lparr>eops := eops e2 @ [\<lparr>kind = OpType t, result = Some r, args = as\<rparr>]\<rparr>)))"

text \<open>The first part of both versions of \<open>InitExpression\<close>: the expression is parsed from the
  recipe, or built from the type of the operation; the \<open>CHECK\<close> aborts (\<open>None\<close>).\<close>

definition parsed_expression :: "Recipes \<Rightarrow> string \<Rightarrow> string \<Rightarrow> nat \<Rightarrow> nat \<Rightarrow> Express option" where
  "parsed_expression R t recipe n m =
     (if t = ''Calculate''
      then Some (if recipe \<noteq> [] then Parse R recipe else empty_express)
      else if t = ''Assign''
      then Some (Parse R (if recipe = [] then ''@0=Id(%1)'' else recipe))
      else if m \<noteq> 1 then None
      else Some (function_expression t n))"

definition InitExpression_op :: "Recipes \<Rightarrow> Flow \<Rightarrow> op_ptr \<Rightarrow> Express option" where
  "InitExpression_op R fl p =
     foldl (mark_input R fl p)
       (parsed_expression R (op_type (op_at fl p)) (GetAttr fl p ''expr'') (indegree fl p)
          (outdegree fl p))
       [0..<indegree fl p]"

text \<open>
  \<open>InitExpression(const Step *step, Express *expr)\<close>. A step (myelin/compute.h) has a type
  and vectors of pointers to its input and output tensors. Modelled from the spec: the
  compute.h at hand declares neither the attributes of a step nor \<open>Tensor::constant\<close>; the
  attributes are a string map as for an operation, and the test for a constant tensor is the
  parameter \<open>constant\<close>.
\<close>

record Step =
  s_type :: string
  s_inputs :: "tensor_ptr list"
  s_outputs :: "tensor_ptr list"
  s_attrs :: "(string \<times> string) list"

definition step_attr :: "Step \<Rightarrow> string \<Rightarrow> string" where
  "step_attr step name = (case map_of (s_attrs step) name of None \<Rightarrow> [] | Some v \<Rightarrow> v)"

text \<open>One round of the loop that marks scalar and constant inputs.\<close>

definition mark_scalar :: "(Tensor \<Rightarrow> bool) \<Rightarrow> tensor_store \<Rightarrow> Step \<Rightarrow> Express \<Rightarrow> nat \<Rightarrow> Express" where
  "mark_scalar constant ts step e i =
     (if elements (m_shape (ts (s_inputs step ! i))) = 1
      then (case Variable e INPUT (int i) of
              (var, e1) \<Rightarrow>
                if constant (ts (s_inputs step ! i))
                then update_var e1 var (\<lambda>v. v\<lparr>var_type := CONST'\<rparr>)
                else update_var e1 var (\<lambda>v. v\<lparr>single := True\<rparr>))
      else e)"

definition InitExpression_step ::
  "Recipes \<Rightarrow> (Tensor \<Rightarrow> bool) \<Rightarrow> tensor_store \<Rightarrow> Step \<Rightarrow> Express option" where
  "InitExpression_step R constant ts step =
     (case parsed_expression R (s_type step) (step_attr step ''expr'') (length (s_inputs step))
             (length (s_outputs step)) of
        None \<Rightarrow> None
      | Some e \<Rightarrow> Some (foldl (mark_scalar constant ts step) e [0..<length (s_inputs step)]))"

text \<open>
  The constructor of \<open>struct Expression\<close>, up to the selection of the generator: the result
  is the expression, the type and the number of elements that
  \<open>ExpressionGenerator::Select(expr, type, elements)\<close> is called with. \<open>Step::GetPrototype\<close> and
  \<open>Shape::CommonSize\<close> are not among the sources and are the parameters \<open>prototype_of\<close> and
  \<open>CommonSize\<close>.
\<close>

definition common_elements :: "(Shape \<Rightarrow> Shape \<Rightarrow> int) \<Rightarrow> tensor_store \<Rightarrow> Step \<Rightarrow> tensor_ptr \<Rightarrow> int" where
  "common_elements CommonSize ts step prototype =
     foldl (\<lambda>n input.
              if elements (m_shape (ts input)) = 1 then n
              else (let common = CommonSize (m_shape (ts prototype)) (m_shape (ts input))
                    in if common < n then common else n))
       (elements (m_shape (ts prototype))) (s_inputs step)"

definition clear_single :: "Express \<Rightarrow> Express" where
  "clear_single e = e\<lparr>evars := map (\<lambda>v. v\<lparr>single := False\<rparr>) (evars e)\<rparr>"

definition Expression_init ::
  "Recipes \<Rightarrow> (Tensor \<Rightarrow> bool) \<Rightarrow> (Step \<Rightarrow> tensor_ptr) \<Rightarrow> (Shape \<Rightarrow> Shape \<Rightarrow> int) \<Rightarrow>
     tensor_store \<Rightarrow> Step \<Rightarrow> (Express \<times> Type \<times> int) option" where
  "Expression_init R constant prototype_of CommonSize ts step =
     (let prototype = prototype_of step;
          type = m_type (ts prototype);
          n = common_elements CommonSize ts step prototype
      in case InitExpression_step R constant ts step of
           None \<Rightarrow> None
         | Some expr \<Rightarrow> Some (if n = 1 then clear_single expr else expr, type, n))"

text \<open>\<open>InputType\<close> and \<open>MapVars\<close>: the map from flow variables to expression variables.\<close>

definition InputType :: "Flow \<Rightarrow> var_ptr \<Rightarrow> VarType" where
  "InputType fl v =
     (if is_constant fl v \<and> elements (v_shape (var_at fl v)) = 1 then CONST' else INPUT)"

definition map_input :: "Flow \<Rightarrow> op_ptr \<Rightarrow> (var_ptr \<rightharpoonup> xvar_ptr) \<times> Express \<Rightarrow> nat \<Rightarrow> (var_ptr \<rightharpoonup> xvar_ptr) \<times> Express" where
  "map_input fl p st i =
     (case st of (varmap, e) \<Rightarrow>
        (case Variable e (InputType fl (inputs (op_at fl p) ! i)) (int i) of
           (x, e1) \<Rightarrow> (varmap(inputs (op_at fl p) ! i \<mapsto> x), e1)))"

definition map_output :: "Flow \<Rightarrow> op_ptr \<Rightarrow> (var_ptr \<rightharpoonup> xvar_ptr) \<times> Express \<Rightarrow> nat \<Rightarrow> (var_ptr \<rightharpoonup> xvar_ptr) \<times> Express" where
  "map_output fl p st i =
     (case st of (varmap, e) \<Rightarrow>
        (case Variable e OUTPUT (int i) of
           (x, e1) \<Rightarrow> (varmap(outputs (op_at fl p) ! i \<mapsto> x), e1)))"

definition MapVars :: "Flow \<Rightarrow> op_ptr \<Rightarrow> Express \<Rightarrow> (var_ptr \<rightharpoonup> xvar_ptr) \<times> Express" where
  "MapVars fl p e =
     foldl (map_output fl p) (foldl (map_input fl p) (Map.empty, e) [0..<indegree fl p])
       [0..<outdegree fl p]"


text \<open>
  \<open>FuseExpressions\<close>. The state of the two loops that build the variable mapping: the two
  expressions, the mapping, and the next free input and output index of the merged
  expression. \<open>vars1\<close> and \<open>vars2\<close> are the maps of \<open>MapVars\<close>; a flow variable they do not hold
  yields a null pointer, whose use is undefined.
\<close>

record fusing =
  expr1 :: Express
  expr2 :: Express
  mapping :: "xvar_ptr \<rightharpoonup> xvar_ptr"
  next_input :: int
  next_output :: int

definition IsInput :: "Flow \<Rightarrow> op_ptr \<Rightarrow> var_ptr \<Rightarrow> bool" where
  "IsInput fl p v = (v \<in> set (inputs (op_at fl p)))"

definition IsOutput :: "Flow \<Rightarrow> op_ptr \<Rightarrow> var_ptr \<Rightarrow> bool" where
  "IsOutput fl p v = (v \<in> set (outputs (op_at fl p)))"

text \<open>The output variables with an id above \<open>i\<close> move down by one.\<close>

definition close_gap :: "int \<Rightarrow> Express \<Rightarrow> Express" where
  "close_gap i e =
     e\<lparr>evars := map (\<lambda>v. if var_type v = OUTPUT \<and> var_id v > i
                          then v\<lparr>var_id := var_id v - 1\<rparr> else v) (evars e)\<rparr>"

definition make_temp :: "Express \<Rightarrow> xvar_ptr \<Rightarrow> Express" where
  "make_temp e p = update_var e p (\<lambda>v. v\<lparr>var_type := TEMP, var_id := -1\<rparr>)"

definition fuse_input ::
  "Flow \<Rightarrow> op_ptr \<Rightarrow> (var_ptr \<rightharpoonup> xvar_ptr) \<Rightarrow> (var_ptr \<rightharpoonup> xvar_ptr) \<Rightarrow> fusing option \<Rightarrow> var_ptr
     \<Rightarrow> fusing option" where
  "fuse_input fl first vars1 vars2 sto v =
     (case sto of None \<Rightarrow> None | Some st \<Rightarrow>
     (case vars2 v of None \<Rightarrow> None | Some x2 \<Rightarrow>
        if IsInput fl first v
        then (case vars1 v of None \<Rightarrow> None
              | Some x1 \<Rightarrow> Some (st\<lparr>mapping := (mapping st)(x2 \<mapsto> x1)\<rparr>))
        else if IsOutput fl first v
        then (case vars1 v of None \<Rightarrow> None
              | Some x1 \<Rightarrow>
                  if usages fl v = 1 \<and> \<not> out fl v
                  then (case at (evars (expr1 st)) x1 of None \<Rightarrow> None
                        | Some var \<Rightarrow>
                            Some (st\<lparr>expr1 := close_gap (var_id var) (make_temp (expr1 st) x1),
                                     next_output := next_output st - 1,
                                     mapping := (mapping st)(x2 \<mapsto> x1)\<rparr>))
                  else Some (st\<lparr>mapping := (mapping st)(x2 \<mapsto> x1)\<rparr>))
        else (case Variable (expr1 st) (InputType fl v) (next_input st) of
                (x1, e1) \<Rightarrow>
                  Some (st\<lparr>expr1 := e1, next_input := next_input st + 1,
                           mapping := (mapping st)(x2 \<mapsto> x1)\<rparr>))))"

definition fuse_output ::
  "Flow \<Rightarrow> op_ptr \<Rightarrow> (var_ptr \<rightharpoonup> xvar_ptr) \<Rightarrow> (var_ptr \<rightharpoonup> xvar_ptr) \<Rightarrow> fusing option \<Rightarrow> var_ptr
     \<Rightarrow> fusing option" where
  "fuse_output fl first vars1 vars2 sto v =
     (case sto of None \<Rightarrow> None | Some st \<Rightarrow>
     (case vars2 v of None \<Rightarrow> None | Some x2 \<Rightarrow>
        if IsInput fl first v
        then (case vars1 v of None \<Rightarrow> None
              | Some x1 \<Rightarrow>
                  if usages fl v = 1 \<and> \<not> out fl v
                  then (case at (evars (expr1 st)) x1 of None \<Rightarrow> None
                        | Some var \<Rightarrow>
                            Some (st\<lparr>expr1 := make_temp (expr1 st) x1,
                                     expr2 := close_gap (var_id var) (expr2 st),
                                     next_output := next_output st - 1,
                                     mapping := (mapping st)(x2 \<mapsto> x1)\<rparr>))
                  else Some (st\<lparr>mapping := (mapping st)(x2 \<mapsto> x1)\<rparr>))
        else (case Variable (expr1 st) OUTPUT (next_output st) of
                (x1, e1) \<Rightarrow>
                  Some (st\<lparr>expr1 := e1, next_output := next_output st + 1,
                           mapping := (mapping st)(x2 \<mapsto> x1)\<rparr>))))"

text \<open>The merged expression, before the test for consumed reductions.\<close>

definition merged_expression :: "Recipes \<Rightarrow> Flow \<Rightarrow> op_ptr \<Rightarrow> op_ptr \<Rightarrow> Express option" where
  "merged_expression R fl first second =
     (case InitExpression_op R fl first of None \<Rightarrow> None | Some e1 \<Rightarrow>
     (case MapVars fl first e1 of (vars1, e1a) \<Rightarrow>
     (case InitExpression_op R fl second of None \<Rightarrow> None | Some e2 \<Rightarrow>
     (case MapVars fl second e2 of (vars2, e2a) \<Rightarrow>
        (let st0 = \<lparr>expr1 = e1a, expr2 = e2a, mapping = Map.empty,
                    next_input = int (indegree fl first), next_output = int (outdegree fl first)\<rparr>;
             st1 = (if IsAssignmentOp fl second \<and> outdegree fl second = 0
                    then (case Variable (expr2 st0) OUTPUT 0 of
                            (v2, e2b) \<Rightarrow>
                              (case Variable (expr1 st0) OUTPUT (next_output st0) of
                                 (v1, e1b) \<Rightarrow>
                                   st0\<lparr>expr1 := e1b, expr2 := e2b,
                                       next_output := next_output st0 + 1,
                                       mapping := (mapping st0)(v2 \<mapsto> v1)\<rparr>))
                    else st0)
         in (case foldl (fuse_output fl first vars1 vars2)
                   (foldl (fuse_input fl first vars1 vars2) (Some st1) (inputs (op_at fl second)))
                   (outputs (op_at fl second)) of
               None \<Rightarrow> None
             | Some st \<Rightarrow>
                 Some (Merge (CompactTempVars (expr1 st)) (CompactTempVars (expr2 st))
                         (mapping st))))))))"

text \<open>\<open>op->reduction() && op->result->usages() > 0\<close> for some operation of the list, taken in
  order; the result of an operation that has none is a null pointer.\<close>

fun consumed_reduction :: "Express \<Rightarrow> Op list \<Rightarrow> bool option" where
  "consumed_reduction e [] = Some False"
| "consumed_reduction e (x # rest) =
     (if reduction x
      then (case result x of
              None \<Rightarrow> None
            | Some r \<Rightarrow> if 0 < var_usages e r then Some True else consumed_reduction e rest)
      else consumed_reduction e rest)"

definition FuseExpressions :: "Recipes \<Rightarrow> Flow \<Rightarrow> op_ptr \<Rightarrow> op_ptr \<Rightarrow> string option" where
  "FuseExpressions R fl first second =
     (case merged_expression R fl first second of
        None \<Rightarrow> None
      | Some e \<Rightarrow>
          (case consumed_reduction e (eops e) of
             None \<Rightarrow> None
           | Some True \<Rightarrow> Some []
           | Some False \<Rightarrow> Some (AsRecipe R (EliminateRedundantMoves R e))))"


text \<open>
  Modelled from the spec: \<open>Shape::defined\<close> (no unbounded dimension) and
  \<open>Shape::IsCompatible\<close>, broadcast compatibility: the dimensions, aligned at the last one,
  agree pairwise or one of the pair is 1 or unbounded.
\<close>

definition defined :: "Shape \<Rightarrow> bool" where
  "defined s = (-1 \<notin> set s)"

definition IsCompatible :: "Shape \<Rightarrow> Shape \<Rightarrow> bool" where
  "IsCompatible s t =
     list_all (\<lambda>d. fst d = snd d \<or> fst d = 1 \<or> fst d = -1 \<or> snd d = 1 \<or> snd d = -1)
       (zip (rev s) (rev t))"

text \<open>
  Modelled from the spec: \<open>Operation::GetPrototype\<close>, the representative variable: the
  output, or the first input if the rank of the output is 0.
\<close>

definition GetPrototype :: "Flow \<Rightarrow> op_ptr \<Rightarrow> var_ptr option" where
  "GetPrototype fl p =
     (case outputs (op_at fl p) of
        [] \<Rightarrow> at (inputs (op_at fl p)) 0
      | r # rest \<Rightarrow>
          if rank (v_shape (var_at fl r)) = 0
          then (case inputs (op_at fl p) of [] \<Rightarrow> Some r | i # others \<Rightarrow> Some i)
          else Some r)"

text \<open>
  Modelled from the spec: \<open>Variable::DependsOn(op)\<close>, the variable is computed from the
  operation, directly or through other operations. A chain of producers without repetition is
  no longer than the list of operations.
\<close>

fun depends :: "Flow \<Rightarrow> nat \<Rightarrow> var_ptr \<Rightarrow> op_ptr \<Rightarrow> bool" where
  "depends fl 0 v p = False"
| "depends fl (Suc k) v p =
     (case producer fl v of
        None \<Rightarrow> False
      | Some q \<Rightarrow> q = p \<or> list_ex (\<lambda>u. depends fl k u p) (inputs (op_at fl q)))"

definition DependsOn :: "Flow \<Rightarrow> var_ptr \<Rightarrow> op_ptr \<Rightarrow> bool" where
  "DependsOn fl v p = depends fl (length (ops fl)) v p"

text \<open>
  Modelled from the spec: \<open>Flow::Fuse(first, second, type, true)\<close> merges the second operation
  into the first. An input of the second that is an input of the first is unified; one that
  is an output of the first is dropped, and the output with it when nothing else uses it and
  it is not a flow output; any other input is appended to the inputs of the first. An output
  of the second that is an input of the first takes that input away (and is dropped when
  nothing else uses it); one that is an output of the first is unified; any other output is
  appended. The first operation takes the new type and the attributes of the second that it
  does not have, and the second operation leaves the flow.
\<close>

definition RemoveOutput :: "Flow \<Rightarrow> op_ptr \<Rightarrow> var_ptr \<Rightarrow> Flow" where
  "RemoveOutput fl p v =
     fl\<lparr>op_at := (op_at fl)(p := (op_at fl p)\<lparr>outputs := remove1 v (outputs (op_at fl p))\<rparr>)\<rparr>"

definition AddInput :: "Flow \<Rightarrow> op_ptr \<Rightarrow> var_ptr \<Rightarrow> Flow" where
  "AddInput fl p v =
     fl\<lparr>op_at := (op_at fl)(p := (op_at fl p)\<lparr>inputs := inputs (op_at fl p) @ [v]\<rparr>)\<rparr>"

definition AddOutput :: "Flow \<Rightarrow> op_ptr \<Rightarrow> var_ptr \<Rightarrow> Flow" where
  "AddOutput fl p v =
     fl\<lparr>op_at := (op_at fl)(p := (op_at fl p)\<lparr>outputs := outputs (op_at fl p) @ [v]\<rparr>)\<rparr>"

definition DeleteVariable :: "Flow \<Rightarrow> var_ptr \<Rightarrow> Flow" where
  "DeleteVariable fl v = fl\<lparr>vars := removeAll v (vars fl)\<rparr>"

definition move_input :: "op_ptr \<Rightarrow> op_ptr \<Rightarrow> Flow \<Rightarrow> var_ptr \<Rightarrow> Flow" where
  "move_input first second fl v =
     (let fl1 = RemoveInput fl second v
      in if IsInput fl first v then fl1
         else if IsOutput fl first v
         then (if usages fl1 v = 0 \<and> \<not> out fl1 v
               then DeleteVariable (RemoveOutput fl1 first v) v else fl1)
         else AddInput fl1 first v)"

definition move_output :: "op_ptr \<Rightarrow> op_ptr \<Rightarrow> Flow \<Rightarrow> var_ptr \<Rightarrow> Flow" where
  "move_output first second fl v =
     (let fl1 = RemoveOutput fl second v
      in if IsInput fl first v
         then (if usages fl v = 1 \<and> \<not> out fl v
               then DeleteVariable (RemoveInput fl1 first v) v
               else AddOutput (RemoveInput fl1 first v) first v)
         else if IsOutput fl first v then fl1
         else AddOutput fl1 first v)"

definition inherit_attr :: "(string \<times> string) list \<Rightarrow> string \<times> string \<Rightarrow> (string \<times> string) list" where
  "inherit_attr as a = (if fst a \<in> fst ` set as then as else as @ [a])"

definition Fuse :: "Flow \<Rightarrow> op_ptr \<Rightarrow> op_ptr \<Rightarrow> string \<Rightarrow> Flow" where
  "Fuse fl first second combined =
     (let fl1 = foldl (move_input first second) fl (inputs (op_at fl second));
          fl2 = foldl (move_output first second) fl1 (outputs (op_at fl1 second));
          fl3 = fl2\<lparr>op_at := (op_at fl2)(first := (op_at fl2 first)
                  \<lparr>op_type := combined,
                   attrs := foldl inherit_attr (attrs (op_at fl2 first)) (attrs (op_at fl2 second))\<rparr>)\<rparr>
      in RemoveOperation fl3 second)"

text \<open>Modelled from the spec: \<open>Operation::InputIndex\<close>, the first place of the variable among
  the inputs, or \<open>-1\<close>.\<close>

fun index_of :: "'a list \<Rightarrow> 'a \<Rightarrow> nat \<Rightarrow> int" where
  "index_of [] v k = -1"
| "index_of (x # xs) v k = (if x = v then int k else index_of xs v (Suc k))"

definition InputIndex :: "Flow \<Rightarrow> op_ptr \<Rightarrow> var_ptr \<Rightarrow> int" where
  "InputIndex fl p v = index_of (inputs (op_at fl p)) v 0"

text \<open>\<open>ExpressionTransformer::Combine\<close>. The checks on the operands of one operation.\<close>

definition inputs_fit :: "Flow \<Rightarrow> Type \<Rightarrow> Shape \<Rightarrow> op_ptr \<Rightarrow> bool" where
  "inputs_fit fl type shape p =
     list_all (\<lambda>input. v_type (var_at fl input) = type \<and> defined (v_shape (var_at fl input)) \<and>
                 IsCompatible (v_shape (var_at fl input)) shape) (inputs (op_at fl p))"

definition outputs_fit :: "Flow \<Rightarrow> Type \<Rightarrow> Shape \<Rightarrow> op_ptr \<Rightarrow> bool" where
  "outputs_fit fl type shape p =
     list_all (\<lambda>output. v_type (var_at fl output) = type \<and> defined (v_shape (var_at fl output)) \<and>
                 \<not> (v_shape (var_at fl output) \<noteq> shape \<and> rank (v_shape (var_at fl output)) \<noteq> 0))
       (outputs (op_at fl p))"

definition indirect :: "Flow \<Rightarrow> op_ptr \<Rightarrow> op_ptr \<Rightarrow> bool" where
  "indirect fl p other =
     list_ex (\<lambda>v. producer fl v \<noteq> Some other \<and> DependsOn fl v other) (inputs (op_at fl p))"

text \<open>The part of \<open>Combine\<close> that keeps the assignment target the first input: the recipe is
  parsed, the ids of the input variables \<open>target_index\<close> and 0 are exchanged, and the two
  input edges are swapped.\<close>

definition exchange_ids :: "Express \<Rightarrow> int \<Rightarrow> Express" where
  "exchange_ids e target_index =
     (case Variable e INPUT target_index of
        (vt, e1) \<Rightarrow>
          (case Variable e1 INPUT 0 of
             (v0, e2) \<Rightarrow>
               update_var (update_var e2 vt (\<lambda>v. v\<lparr>var_id := 0\<rparr>)) v0
                 (\<lambda>v. v\<lparr>var_id := target_index\<rparr>)))"

definition swap_with_first :: "Flow \<Rightarrow> op_ptr \<Rightarrow> nat \<Rightarrow> Flow" where
  "swap_with_first fl p k =
     (let xs = inputs (op_at fl p)
      in fl\<lparr>op_at := (op_at fl)(p := (op_at fl p)\<lparr>inputs := xs[0 := xs ! k, k := xs ! 0]\<rparr>)\<rparr>)"

definition Combine :: "Recipes \<Rightarrow> Flow \<Rightarrow> op_ptr \<Rightarrow> op_ptr \<Rightarrow> (bool \<times> Flow) option" where
  "Combine R fl first second =
     (if GetAttr_bool fl first ''nomerge'' then Some (False, fl)
      else if GetAttr_bool fl second ''nomerge'' then Some (False, fl)
      else
       (let assign = IsAssignmentOp fl second
        in if indegree fl first < 1 then Some (False, fl)
           else if outdegree fl first < 1 then Some (False, fl)
           else if indegree fl second < 1 then Some (False, fl)
           else if \<not> assign \<and> outdegree fl second < 1 then Some (False, fl)
           else
            (case GetPrototype fl first of
               None \<Rightarrow> None
             | Some prototype \<Rightarrow>
                (let type = v_type (var_at fl prototype); shape = v_shape (var_at fl prototype)
                 in if \<not> inputs_fit fl type shape first then Some (False, fl)
                    else if \<not> inputs_fit fl type shape second then Some (False, fl)
                    else if \<not> outputs_fit fl type shape first then Some (False, fl)
                    else if \<not> outputs_fit fl type shape second then Some (False, fl)
                    else if indirect fl first second then Some (False, fl)
                    else if indirect fl second first then Some (False, fl)
                    else
                     (case FuseExpressions R fl first second of
                        None \<Rightarrow> None
                      | Some fused_recipe \<Rightarrow>
                          if fused_recipe = [] then Some (False, fl)
                          else
                           (let target = inputs (op_at fl second) ! 0;
                                fused = Fuse fl first second
                                          (if assign then ''Assign'' else ''Calculate'')
                            in if assign \<and> at (inputs (op_at fused first)) 0 \<noteq> Some target
                               then (let target_index = InputIndex fused first target
                                     in if target_index = -1 then None
                                        else Some (True,
                                          SetAttr (swap_with_first fused first (nat target_index))
                                            first ''expr''
                                            (AsRecipe R
                                               (exchange_ids (Parse R fused_recipe) target_index))))
                               else Some (True, SetAttr fused first ''expr'' fused_recipe)))))))"


text \<open>
  \<open>ExpressionTransformer::Transform\<close>. The two loops that merge a producer into its consumer
  differ in the test on the consumer (an assignment, or a calculate operation) and in the
  containment test of the first; the flag \<open>assignments\<close> tells them apart. A \<open>while (again)\<close>
  loop runs on fuel, one unit for each pass.
\<close>

datatype 'a outcome = OutOfFuel | Aborted | Finished 'a

definition contained :: "Flow \<Rightarrow> op_ptr \<Rightarrow> op_ptr \<Rightarrow> bool" where
  "contained fl q p =
     list_all (\<lambda>v. \<not> (usages fl v \<noteq> 1 \<or> at (consumers fl v) 0 \<noteq> Some p \<or> out fl v))
       (outputs (op_at fl q))"

text \<open>The loop over the inputs of a candidate: \<open>Some (Some fl')\<close> when a producer was combined
  with it, \<open>Some None\<close> when none was, \<open>None\<close> when \<open>Combine\<close> has no result.\<close>

fun try_producers :: "Recipes \<Rightarrow> bool \<Rightarrow> Flow \<Rightarrow> op_ptr \<Rightarrow> var_ptr list \<Rightarrow> Flow option option" where
  "try_producers R assignments fl p [] = Some None"
| "try_producers R assignments fl p (input # rest) =
     (case producer fl input of
        None \<Rightarrow> try_producers R assignments fl p rest
      | Some q \<Rightarrow>
          if \<not> IsCalculateOp fl q then try_producers R assignments fl p rest
          else if GetAttr_bool fl q ''strict'' then try_producers R assignments fl p rest
          else if assignments \<and> \<not> contained fl q p then try_producers R assignments fl p rest
          else (case Combine R fl q p of
                  None \<Rightarrow> None
                | Some (combined, fl') \<Rightarrow>
                    if combined then Some (Some fl') else try_producers R assignments fl p rest))"

text \<open>The loop over the candidates: the state is the flow, \<open>num_combines\<close> and \<open>again\<close>; the
  result carries the new list of candidates, with null for a candidate that was merged.\<close>

fun sweep ::
  "Recipes \<Rightarrow> bool \<Rightarrow> Flow \<times> nat \<times> bool \<Rightarrow> op_ptr option list
     \<Rightarrow> ((Flow \<times> nat \<times> bool) \<times> op_ptr option list) option" where
  "sweep R assignments st [] = Some (st, [])"
| "sweep R assignments st (c # cs) =
     (case st of (fl, num_combines, again) \<Rightarrow>
        (case (case c of
                 None \<Rightarrow> Some None
               | Some p \<Rightarrow>
                   if \<not> (if assignments then IsAssignmentOp fl p else IsCalculateOp fl p)
                   then Some None
                   else try_producers R assignments fl p (inputs (op_at fl p))) of
           None \<Rightarrow> None
         | Some None \<Rightarrow>
             (case sweep R assignments st cs of
                None \<Rightarrow> None
              | Some (st', cs') \<Rightarrow> Some (st', c # cs'))
         | Some (Some fl') \<Rightarrow>
             (case sweep R assignments (fl', num_combines + 1, True) cs of
                None \<Rightarrow> None
              | Some (st', cs') \<Rightarrow> Some (st', None # cs'))))"

fun merge_loop ::
  "nat \<Rightarrow> Recipes \<Rightarrow> bool \<Rightarrow> Flow \<Rightarrow> op_ptr option list \<Rightarrow> nat
     \<Rightarrow> (Flow \<times> op_ptr option list \<times> nat) outcome" where
  "merge_loop 0 R assignments fl candidates num_combines = OutOfFuel"
| "merge_loop (Suc fuel) R assignments fl candidates num_combines =
     (case sweep R assignments (fl, num_combines, False) candidates of
        None \<Rightarrow> Aborted
      | Some ((fl', num_combines', again), candidates') \<Rightarrow>
          if again then merge_loop fuel R assignments fl' candidates' num_combines'
          else Finished (fl', candidates', num_combines'))"

text \<open>The loop over the variables of the flow that looks for two calculate operations sharing
  an input with more than one element.\<close>

fun share_scan :: "Recipes \<Rightarrow> Flow \<Rightarrow> var_ptr list \<Rightarrow> Flow option option" where
  "share_scan R fl [] = Some None"
| "share_scan R fl (var # rest) =
     (if usages fl var < 2 then share_scan R fl rest
      else if elements (v_shape (var_at fl var)) < 2 then share_scan R fl rest
      else (case filter (\<lambda>p. IsCalculateOp fl p \<and> \<not> GetAttr_bool fl p ''strict'')
                   (consumers fl var) of
              first # second # others \<Rightarrow>
                (case Combine R fl first second of
                   None \<Rightarrow> None
                 | Some (combined, fl') \<Rightarrow>
                     if combined then Some (Some fl') else share_scan R fl rest)
            | _ \<Rightarrow> share_scan R fl rest))"

fun share_loop :: "nat \<Rightarrow> Recipes \<Rightarrow> Flow \<Rightarrow> nat \<Rightarrow> (Flow \<times> nat) outcome" where
  "share_loop 0 R fl num_combines = OutOfFuel"
| "share_loop (Suc fuel) R fl num_combines =
     (case share_scan R fl (vars fl) of
        None \<Rightarrow> Aborted
      | Some None \<Rightarrow> Finished (fl, num_combines)
      | Some (Some fl') \<Rightarrow> share_loop fuel R fl' (num_combines + 1))"

definition candidates_of :: "Flow \<Rightarrow> op_ptr option list" where
  "candidates_of fl =
     map Some (filter (\<lambda>p. (IsCalculateOp fl p \<or> IsAssignmentOp fl p) \<and>
                             \<not> GetAttr_bool fl p ''strict'') (ops fl))"

definition Transform :: "nat \<Rightarrow> Recipes \<Rightarrow> Flow \<Rightarrow> (Flow \<times> bool) outcome" where
  "Transform fuel R fl =
     (case merge_loop fuel R True fl (candidates_of fl) 0 of
        OutOfFuel \<Rightarrow> OutOfFuel
      | Aborted \<Rightarrow> Aborted
      | Finished (fl1, candidates1, n1) \<Rightarrow>
          (case merge_loop fuel R False fl1 candidates1 n1 of
             OutOfFuel \<Rightarrow> OutOfFuel
           | Aborted \<Rightarrow> Aborted
           | Finished (fl2, candidates2, n2) \<Rightarrow>
               (case share_loop fuel R fl2 n2 of
                  OutOfFuel \<Rightarrow> OutOfFuel
                | Aborted \<Rightarrow> Aborted
                | Finished (fl3, n3) \<Rightarrow> Finished (fl3, n3 > 0))))"

text \<open>The spec's scenario \<open>s = Sum(x); y = Add(s, 1); z = Mul(y, x)\<close>: variables \<open>x = 0\<close>,
  \<open>s = 1\<close>, the constant \<open>one = 2\<close>, \<open>y = 3\<close> and \<open>z = 4\<close>; operations \<open>Sum = 0\<close>, \<open>Add = 1\<close>, \<open>Mul = 2\<close>.\<close>

definition reduction_flow :: Flow where
  "reduction_flow =
     \<lparr>ops = [0, 1, 2], vars = [0, 1, 2, 3, 4],
      op_at = (\<lambda>p. if p = 0 then example_op ''Sum'' [0] [1]
                    else if p = 1 then example_op ''Add'' [1, 2] [3]
                    else example_op ''Mul'' [3, 0] [4]),
      var_at = (\<lambda>v. \<lparr>v_type = DT_FLOAT, v_shape = (if v = 0 \<or> v = 4 then [8] else []),
                      v_data = (if v = 2 then Some 0 else None),
                      v_size = (if v = 0 \<or> v = 4 then 32 else 4),
                      v_in = (v = 0), v_out = (v = 4)\<rparr>),
      blocks = [[0, 0, 0x80, 0x3F]]\<rparr>"

text \<open>\<open>y = Neg(x); Assign(t, y)\<close>: variables \<open>x = 0\<close>, \<open>t = 1\<close>, \<open>y = 2\<close>; operations \<open>Neg = 0\<close>,
  \<open>Assign = 1\<close>.\<close>

definition assign_flow :: Flow where
  "assign_flow =
     \<lparr>ops = [0, 1], vars = [0, 1, 2],
      op_at = (\<lambda>p. if p = 0 then example_op ''Neg'' [0] [2] else example_op ''Assign'' [1, 2] []),
      var_at = (\<lambda>v. example_var False),
      blocks = []\<rparr>"

text \<open>
  Stand-ins for the parser, the printer and the removal of moves that are right at the
  recipes of the example: \<open>@0=Id(%1)\<close> of a plain assignment, the merged expression
  \<open>$0=Neg(%0);@0=Id($0)\<close>, which is \<open>@0=Neg(%0)\<close> without the move, and \<open>@0=Neg(%1)\<close>. The numbers
  of the system constants are those of their order in the source.
\<close>

definition example_var_of :: "VarType \<Rightarrow> int \<Rightarrow> Var" where
  "example_var_of t i = \<lparr>var_type = t, var_id = i, single = False\<rparr>"

definition id_expression :: Express where
  "id_expression =
     \<lparr>evars = [example_var_of OUTPUT 0, example_var_of INPUT 1],
      eops = [\<lparr>kind = MOV, result = Some 0, args = [1]\<rparr>]\<rparr>"

definition merged_neg_expression :: Express where
  "merged_neg_expression =
     \<lparr>evars = [example_var_of INPUT 0, example_var_of TEMP 0, example_var_of OUTPUT 0,
               example_var_of INPUT 1],
      eops = [\<lparr>kind = NEG, result = Some 1, args = [0]\<rparr>,
              \<lparr>kind = MOV, result = Some 2, args = [1]\<rparr>]\<rparr>"

definition fused_neg_expression :: Express where
  "fused_neg_expression =
     \<lparr>evars = [example_var_of INPUT 0, example_var_of OUTPUT 0, example_var_of INPUT 1],
      eops = [\<lparr>kind = NEG, result = Some 1, args = [0]\<rparr>]\<rparr>"

definition neg_expression :: Express where
  "neg_expression =
     \<lparr>evars = [example_var_of OUTPUT 0, example_var_of INPUT 0],
      eops = [\<lparr>kind = NEG, result = Some 0, args = [1]\<rparr>]\<rparr>"

definition swapped_neg_expression :: Express where
  "swapped_neg_expression =
     \<lparr>evars = [example_var_of OUTPUT 0, example_var_of INPUT 1, example_var_of INPUT 0],
      eops = [\<lparr>kind = NEG, result = Some 0, args = [1]\<rparr>]\<rparr>"

definition example_recipes :: Recipes where
  "example_recipes =
     \<lparr>Parse = (\<lambda>r. if r = ''@0=Id(%1)'' then id_expression
                    else if r = ''@0=Neg(%0)'' then neg_expression else empty_express),
      AsRecipe = (\<lambda>e. if e = fused_neg_expression then ''@0=Neg(%0)''
                       else if e = swapped_neg_expression then ''@0=Neg(%1)'' else ''@0=Id(%0)''),
      EliminateRedundantMoves =
        (\<lambda>e. if e = merged_neg_expression then fused_neg_expression else e),
      ZERO = 0, ONE = 1, HALF = 2, TWO = 3, N1 = 4\<rparr>"

text \<open>A step \<open>Add(a, s)\<close> with the vector \<open>a\<close> (tensor 0), the scalar \<open>s\<close> (tensor 1) and the result
  (tensor 2), which is a vector or, for \<open>Add(s, s)\<close>, a scalar.\<close>

definition example_tensors :: "bool \<Rightarrow> tensor_store" where
  "example_tensors scalar = (\<lambda>t. example_tensor\<lparr>m_shape := (if t = 1 \<or> scalar then [] else [8])\<rparr>)"

definition example_step :: Step where
  "example_step = \<lparr>s_type = ''Add'', s_inputs = [0, 1], s_outputs = [2], s_attrs = []\<rparr>"

definition example_CommonSize :: "Shape \<Rightarrow> Shape \<Rightarrow> int" where
  "example_CommonSize s t = min (elements s) (elements t)"


text \<open>The merged expression of \<open>Sum\<close> and \<open>Add\<close> in the reduction scenario,
  \<open>$0=Sum(%0);@0=Add($0,_1)\<close>.\<close>

definition sum_add_expression :: Express where
  "sum_add_expression =
     \<lparr>evars = [example_var_of INPUT 0, example_var_of TEMP 0, example_var_of CONST' 1,
               example_var_of OUTPUT 0, example_var_of NUMBER 1],
      eops = [\<lparr>kind = SUM', result = Some 1, args = [0]\<rparr>,
              \<lparr>kind = ADD, result = Some 3, args = [1, 4]\<rparr>]\<rparr>"

text \<open>The expression of the step \<open>Add(a, s)\<close>, with the flag \<open>single\<close> of the second input.\<close>

definition add_expression :: "bool \<Rightarrow> Express" where
  "add_expression s =
     \<lparr>evars = [example_var_of INPUT 0, (example_var_of INPUT 1)\<lparr>single := s\<rparr>,
               example_var_of OUTPUT 0],
      eops = [\<lparr>kind = ADD, result = Some 2, args = [0, 1]\<rparr>]\<rparr>"

definition example_prototype :: "Step \<Rightarrow> tensor_ptr" where
  "example_prototype step = s_outputs step ! 0"


section \<open>Auxiliary notions for the proofs of fusion\<close>

text \<open>The number of candidates that are not null.\<close>

definition live :: "op_ptr option list \<Rightarrow> nat" where
  "live cs = length (filter (\<lambda>c. c \<noteq> None) cs)"

text \<open>In the spec's words: the expression has a reduction whose result is an argument of one
  of its operations.\<close>

definition consumes_reduction :: "Express \<Rightarrow> bool" where
  "consumes_reduction e =
     list_ex (\<lambda>x. reduction x \<and>
                (case result x of
                   None \<Rightarrow> False
                 | Some r \<Rightarrow> list_ex (\<lambda>y. r \<in> set (args y)) (eops e))) (eops e)"

text \<open>The variable \<open>Variable(INPUT, i)\<close> is there and has the flag \<open>single\<close>.\<close>

definition marked_single :: "Express \<Rightarrow> nat \<Rightarrow> bool" where
  "marked_single e i =
     (case Lookup e INPUT (int i) of None \<Rightarrow> False | Some p \<Rightarrow> single (evars e ! p))"


section \<open>Properties of tensors and instances\<close>

text \<open>
  C10. The shared-storage test is symmetric: \<open>a.SharedWith(b)\<close> is true exactly when the
  shared pointer of \<open>a\<close> is \<open>b\<close> or the shared pointer of \<open>b\<close> is \<open>a\<close>, and so it equals
  \<open>b.SharedWith(a)\<close>.
\<close>

theorem SharedWith_symmetric:
  "SharedWith ts a b = (m_shared (ts a) = Some b \<or> m_shared (ts b) = Some a)
   \<and> SharedWith ts a b = SharedWith ts b a"
  unfolding SharedWith_def by blast

text \<open>
  C9. For a parameter tensor \<open>t\<close> that is not a constant, \<open>Get<T>(t)\<close> is the address of
  the data block plus \<open>t.offset()\<close>, \<open>Get<T>(t, r)\<close> adds \<open>r * t.stride(0)\<close> and
  \<open>Get<T>(t, r, c)\<close> adds \<open>r * t.stride(0) + c * t.stride(1)\<close>, whenever the strides exist
  and the \<open>int\<close> arithmetic of \<open>Tensor::offset\<close> is defined; no accessor changes the memory,
  whatever it returns.
\<close>

theorem Instance_Get_offsets:
  assumes "\<not> IsConstant t" and "T = m_type t"
  shows "Get dchecks T inst t m = (Inr (i_data inst + m_offset t), m)
    \<and> (stride t 0 = Some s0 \<and> int32_ok (r * s0) \<longrightarrow>
         Get_r dchecks T inst t r m = (Inr (i_data inst + m_offset t + r * s0), m))
    \<and> (stride t 0 = Some s0 \<and> stride t 1 = Some s1 \<and> int32_ok (r * s0) \<and> int32_ok (c * s1)
           \<and> int32_ok (r * s0 + c * s1) \<longrightarrow>
         Get_rc dchecks T inst t r c m = (Inr (i_data inst + m_offset t + (r * s0 + c * s1)), m))
    \<and> snd (Get d T' inst' t' m) = m
    \<and> snd (Get_r d T' inst' t' r' m) = m
    \<and> snd (Get_rc d T' inst' t' r' c' m) = m"
proof -
  have chk: "Get_checks dchecks T t"
    using assms by (simp add: Get_checks_def)
  have g0: "Get dchecks T inst t m = (Inr (i_data inst + m_offset t), m)"
    using chk by (simp add: Get_def)
  have g1: "stride t 0 = Some s0 \<and> int32_ok (r * s0) \<longrightarrow>
         Get_r dchecks T inst t r m = (Inr (i_data inst + m_offset t + r * s0), m)"
    using chk by (simp add: Get_r_def offset1_def int32_def)
  have g2: "stride t 0 = Some s0 \<and> stride t 1 = Some s1 \<and> int32_ok (r * s0) \<and> int32_ok (c * s1)
           \<and> int32_ok (r * s0 + c * s1) \<longrightarrow>
         Get_rc dchecks T inst t r c m = (Inr (i_data inst + m_offset t + (r * s0 + c * s1)), m)"
    using chk by (simp add: Get_rc_def offset2_def int32_def)
  have f0: "snd (Get d T' inst' t' m) = m"
    by (simp add: Get_def)
  have f1: "snd (Get_r d T' inst' t' r' m) = m"
    by (simp add: Get_r_def split: option.splits)
  have f2: "snd (Get_rc d T' inst' t' r' c' m) = m"
    by (simp add: Get_rc_def split: option.splits)
  from g0 g1 g2 f0 f1 f2 show ?thesis by blast
qed

theorem Instance_Get_offsets_witness:
  "\<not> IsConstant example_tensor \<and> DT_FLOAT = m_type example_tensor
   \<and> Get True DT_FLOAT example_instance example_tensor (\<lambda>a. 0) = (Inr 4224, \<lambda>a. 0)
   \<and> Get_r True DT_FLOAT example_instance example_tensor 2 (\<lambda>a. 0) = (Inr 4352, \<lambda>a. 0)
   \<and> Get_rc True DT_FLOAT example_instance example_tensor 2 3 (\<lambda>a. 0) = (Inr 4364, \<lambda>a. 0)"
proof -
  have c: "\<not> IsConstant example_tensor"
    by (simp add: IsConstant_def example_tensor_def)
  have ty: "DT_FLOAT = m_type example_tensor"
    by (simp add: example_tensor_def)
  have s0: "stride example_tensor 0 = Some 64" and s1: "stride example_tensor 1 = Some 4"
    by (simp_all add: stride_def dim_def example_tensor_def)
  have ok: "int32_ok (2 * 64)" "int32_ok (3 * 4)" "int32_ok (2 * 64 + 3 * 4)"
    by (simp_all add: int32_ok_def)
  show ?thesis
    using Instance_Get_offsets [OF c ty, of True example_instance "\<lambda>a. 0" 64 2 4 3]
      c ty s0 s1 ok
    by (simp add: example_instance_def example_tensor_def)
qed

section \<open>Properties of the pattern loops\<close>

lemma usages_sum: "usages fl v = sum_list (map (\<lambda>t. count_list (inputs (op_at fl t)) v) (ops fl))"
  by (simp add: usages_def consumers_def length_concat comp_def)

lemma AddNegToSub_body_bypass: "AddNegToSub_body = bypass_body ''Sub'' 1 (\<lambda>u. u = 1) False"
  by (intro ext) (simp add: AddNegToSub_body_def bypass_body_def split: prod.splits option.splits)

lemma count_list_redirect:
  "v \<noteq> r \<Longrightarrow> count_list (map (\<lambda>x. if x = r then b else x) xs) v
     = count_list xs v + (if v = b then count_list xs r else 0)"
  by (induction xs) auto

lemma count_list_swap:
  "1 < length xs \<Longrightarrow> count_list (xs[0 := xs ! 1, 1 := xs ! 0]) v = count_list xs v"
proof -
  assume l: "1 < length xs"
  have "mset (xs[0 := xs ! 1, 1 := xs ! 0]) = mset xs"
    using l by (intro mset_swap) auto
  then have "count (mset (xs[0 := xs ! 1, 1 := xs ! 0])) v = count (mset xs) v" by simp
  then show ?thesis by (simp only: count_mset)
qed

lemma sum_list_distinct_split:
  fixes f :: "'a \<Rightarrow> nat"
  shows "distinct xs \<Longrightarrow> c \<in> set xs \<Longrightarrow> sum_list (map f xs) = f c + sum_list (map f (removeAll c xs))"
  by (simp add: sum_list_map_remove1 distinct_remove1_removeAll)

lemma sole_consumer:
  assumes d: "distinct (ops fl)" and c: "c \<in> set (ops fl)"
    and r: "r \<in> set (inputs (op_at fl c))" and u: "usages fl r \<le> 1"
  shows "count_list (inputs (op_at fl c)) r = 1"
    and "\<And>t. t \<in> set (ops fl) \<Longrightarrow> t \<noteq> c \<Longrightarrow> r \<notin> set (inputs (op_at fl t))"
proof -
  let ?f = "\<lambda>t. count_list (inputs (op_at fl t)) r"
  have s: "usages fl r = ?f c + sum_list (map ?f (removeAll c (ops fl)))"
    unfolding usages_sum using d c by (rule sum_list_distinct_split)
  have pos: "0 < ?f c" using r by (metis count_list_0_iff gr0I)
  with s u show "?f c = 1" by linarith
  with s u have z: "sum_list (map ?f (removeAll c (ops fl))) = 0" by linarith
  fix t assume "t \<in> set (ops fl)" "t \<noteq> c"
  then have "t \<in> set (removeAll c (ops fl))" by simp
  with z have "?f t = 0" by (simp add: sum_list_eq_0_iff)
  then show "r \<notin> set (inputs (op_at fl t))" by (simp add: count_list_0_iff)
qed

lemma producer_SomeD:
  "producer fl v = Some p \<Longrightarrow> p \<in> set (ops fl) \<and> v \<in> set (outputs (op_at fl p))"
  unfolding producer_def by (auto simp: find_Some_iff)

lemma find_removeAll:
  "\<not> P p \<Longrightarrow> find P (removeAll p xs) = find P xs"
  by (induction xs) auto

lemma bypassed_ops:
  "inputs (op_at fl p) = [b] \<Longrightarrow> outputs (op_at fl p) = [r] \<Longrightarrow>
   ops (bypassed T sw fl p c) = removeAll p (ops fl)"
  by (simp add: bypassed_def swap_inputs_def set_type_def Eliminate_def RemoveOperation_def Let_def)

lemma bypassed_vars:
  "inputs (op_at fl p) = [b] \<Longrightarrow> outputs (op_at fl p) = [r] \<Longrightarrow>
   var_at (bypassed T sw fl p c) = var_at fl \<and> blocks (bypassed T sw fl p c) = blocks fl"
  by (simp add: bypassed_def swap_inputs_def set_type_def Eliminate_def RemoveOperation_def Let_def)

lemma bypassed_other:
  "inputs (op_at fl p) = [b] \<Longrightarrow> outputs (op_at fl p) = [r] \<Longrightarrow> t \<noteq> c \<Longrightarrow>
   op_at (bypassed T sw fl p c) t = redirect r b (op_at fl t)"
  by (simp add: bypassed_def swap_inputs_def set_type_def Eliminate_def RemoveOperation_def Let_def)

lemma bypassed_self:
  "inputs (op_at fl p) = [b] \<Longrightarrow> outputs (op_at fl p) = [r] \<Longrightarrow>
   op_at (bypassed T sw fl p c) c =
     (op_at fl c)\<lparr>op_type := T,
        inputs := swapped sw (map (\<lambda>v. if v = r then b else v) (inputs (op_at fl c)))\<rparr>"
  by (simp add: bypassed_def swap_inputs_def set_type_def Eliminate_def RemoveOperation_def Let_def
      redirect_def swapped_def)

lemma redirect_id: "r \<notin> set (inputs t) \<Longrightarrow> redirect r b t = t"
proof -
  assume "r \<notin> set (inputs t)"
  then have "map (\<lambda>v. if v = r then b else v) (inputs t) = inputs t"
    by (intro map_idI) auto
  then show ?thesis by (simp add: redirect_def)
qed

lemma count_list_swapped:
  "(sw \<Longrightarrow> 1 < length ys) \<Longrightarrow> count_list (swapped sw ys) v = count_list ys v"
  using count_list_swap [of ys v] by (cases sw) (simp_all add: swapped_def)

lemma bypassed_usages:
  assumes d: "distinct (ops fl)" and c: "c \<in> set (ops fl)" and p: "p \<in> set (ops fl)"
    and cp: "c \<noteq> p"
    and ip: "inputs (op_at fl p) = [b]" and op: "outputs (op_at fl p) = [r]"
    and r: "r \<in> set (inputs (op_at fl c))" and u: "usages fl r \<le> 1"
    and l: "sw \<Longrightarrow> 1 < length (inputs (op_at fl c))"
    and v: "v \<noteq> r"
  shows "usages (bypassed T sw fl p c) v = usages fl v"
proof -
  let ?fl' = "bypassed T sw fl p c"
  let ?f = "\<lambda>t. count_list (inputs (op_at fl t)) v"
  let ?g = "\<lambda>t. count_list (inputs (op_at ?fl' t)) v"
  note sc = sole_consumer [OF d c r u]
  have same: "?g t = ?f t" if "t \<in> set (ops fl)" "t \<noteq> c" for t
    using that sc(2) [of t] by (simp add: bypassed_other [OF ip op] redirect_id)
  have gc: "?g c = ?f c + (if v = b then 1 else 0)"
    using l v sc(1) by (simp add: bypassed_self [OF ip op] count_list_swapped count_list_redirect)
  have fp: "?f p = (if v = b then 1 else 0)"
    using ip by simp
  have d': "distinct (removeAll p (ops fl))" using d by (simp add: distinct_removeAll)
  have c': "c \<in> set (removeAll p (ops fl))" using c cp by simp
  have "usages ?fl' v = sum_list (map ?g (removeAll p (ops fl)))"
    by (simp add: usages_sum bypassed_ops [OF ip op])
  also have "\<dots> = ?g c + sum_list (map ?g (removeAll c (removeAll p (ops fl))))"
    using d' c' by (rule sum_list_distinct_split)
  also have "sum_list (map ?g (removeAll c (removeAll p (ops fl))))
      = sum_list (map ?f (removeAll c (removeAll p (ops fl))))"
    by (rule arg_cong [where f = sum_list], rule map_cong) (auto simp: same)
  finally have 1: "usages ?fl' v
      = ?f c + (if v = b then 1 else 0) + sum_list (map ?f (removeAll c (removeAll p (ops fl))))"
    using gc by simp
  have "usages fl v = ?f p + sum_list (map ?f (removeAll p (ops fl)))"
    unfolding usages_sum using d p by (rule sum_list_distinct_split)
  also have "sum_list (map ?f (removeAll p (ops fl)))
      = ?f c + sum_list (map ?f (removeAll c (removeAll p (ops fl))))"
    using d' c' by (rule sum_list_distinct_split)
  finally have 2: "usages fl v
      = ?f p + (?f c + sum_list (map ?f (removeAll c (removeAll p (ops fl)))))" .
  from 1 2 fp show ?thesis by simp
qed

lemma bypassed_outputs:
  "inputs (op_at fl p) = [b] \<Longrightarrow> outputs (op_at fl p) = [r] \<Longrightarrow>
   outputs (op_at (bypassed T sw fl p c) t) = outputs (op_at fl t)"
  by (cases "t = c") (simp_all add: bypassed_self bypassed_other redirect_def)

lemma bypassed_producer:
  assumes ip: "inputs (op_at fl p) = [b]" and op: "outputs (op_at fl p) = [r]" and v: "v \<noteq> r"
  shows "producer (bypassed T sw fl p c) v = producer fl v"
proof -
  have "\<not> (v \<in> set (outputs (op_at fl p)))" using op v by simp
  then show ?thesis
    by (simp add: producer_def bypassed_ops [OF ip op] bypassed_outputs [OF ip op] find_removeAll)
qed

lemma at_SomeD: "at xs i = Some x \<Longrightarrow> i < length xs \<and> xs ! i = x \<and> x \<in> set xs"
  by (auto simp: at_def split: if_splits)

lemma matchesD:
  assumes m: "matches fl P i C c" and un: "unary fl P"
  obtains p r b where "op_type (op_at fl c) = C" "at (inputs (op_at fl c)) i = Some r"
    "producer fl r = Some p" "p \<in> set (ops fl)" "op_type (op_at fl p) = P"
    "inputs (op_at fl p) = [b]" "outputs (op_at fl p) = [r]"
proof -
  from m obtain r p where t: "op_type (op_at fl c) = C" and r: "at (inputs (op_at fl c)) i = Some r"
    and p: "producer fl r = Some p" and tp: "op_type (op_at fl p) = P"
    and o: "at (outputs (op_at fl p)) 0 = Some r"
    by (auto simp: matches_def split: option.splits)
  from p have pin: "p \<in> set (ops fl)" by (simp add: producer_SomeD)
  with un tp have l: "length (inputs (op_at fl p)) = 1" "length (outputs (op_at fl p)) = 1"
    by (auto simp: unary_def)
  from l(1) obtain b where b: "inputs (op_at fl p) = [b]"
    by (cases "inputs (op_at fl p)") auto
  from l(2) o have "outputs (op_at fl p) = [r]"
    by (cases "outputs (op_at fl p)") (auto simp: at_def)
  with t r p pin tp b show thesis by (rule that)
qed

lemma bypass_body_eq:
  assumes "at (inputs (op_at fl c)) i = Some r" "producer fl r = Some p"
    "outputs (op_at fl p) = [r]"
  shows "bypass_body T i ok sw (fl, n) c =
     (if ok (usages fl r) \<and> \<not> out fl r then Some (bypassed T sw fl p c, n + 1) else Some (fl, n))"
  using assms by (simp add: bypass_body_def bypassed_def at_def)

lemma live_matches_tail: "live_matches fl P i C (c # ms) \<Longrightarrow> live_matches fl P i C ms"
  by (simp add: live_matches_def)

lemma live_matches_bypassed:
  assumes lm: "live_matches fl P i C (c # ms)" and PC: "P \<noteq> C" and TP: "T \<noteq> P"
    and r: "at (inputs (op_at fl c)) i = Some r" and p: "producer fl r = Some p"
    and tp: "op_type (op_at fl p) = P"
    and ip: "inputs (op_at fl p) = [b]" and op: "outputs (op_at fl p) = [r]"
    and u: "usages fl r \<le> 1"
  shows "live_matches (bypassed T sw fl p c) P i C ms"
proof -
  let ?fl' = "bypassed T sw fl p c"
  from lm have d: "distinct (ops fl)" and un: "unary fl P" and dm: "distinct (c # ms)"
    and c: "c \<in> set (ops fl)" and mc: "matches fl P i C c"
    and rest: "\<And>c'. c' \<in> set ms \<Longrightarrow> c' \<in> set (ops fl) \<and> matches fl P i C c'"
    by (auto simp: live_matches_def)
  from r have rin: "r \<in> set (inputs (op_at fl c))" by (simp add: at_SomeD)
  note sc = sole_consumer [OF d c rin u]
  have ops': "ops ?fl' = removeAll p (ops fl)" by (rule bypassed_ops [OF ip op])
  have same: "op_at ?fl' t = op_at fl t" if "t \<in> set (ops fl)" "t \<noteq> c" for t
    using that sc(2) [of t] by (simp add: bypassed_other [OF ip op] redirect_id)
  have tc: "op_type (op_at ?fl' c) = T" by (simp add: bypassed_self [OF ip op])
  have d': "distinct (ops ?fl')" using d by (simp add: ops' distinct_removeAll)
  have un': "unary ?fl' P"
    unfolding unary_def
  proof (intro ballI impI)
    fix t assume t: "t \<in> set (ops ?fl')" and ty: "op_type (op_at ?fl' t) = P"
    from t have tin: "t \<in> set (ops fl)" by (simp add: ops')
    from ty tc TP have "t \<noteq> c" by auto
    with tin have "op_at ?fl' t = op_at fl t" by (rule same)
    with un tin ty show "length (inputs (op_at ?fl' t)) = 1 \<and> length (outputs (op_at ?fl' t)) = 1"
      by (simp add: unary_def)
  qed
  have keep: "c' \<in> set (ops ?fl') \<and> matches ?fl' P i C c'" if c': "c' \<in> set ms" for c'
  proof -
    from rest [OF c'] have cin: "c' \<in> set (ops fl)" and m: "matches fl P i C c'" by auto
    from dm c' have ne: "c' \<noteq> c" by auto
    from m un obtain p' r' b' where t': "op_type (op_at fl c') = C"
      and r': "at (inputs (op_at fl c')) i = Some r'"
      and p': "producer fl r' = Some p'" and pin': "p' \<in> set (ops fl)"
      and tp': "op_type (op_at fl p') = P" and op': "outputs (op_at fl p') = [r']"
      by (rule matchesD)
    from t' tp PC have "c' \<noteq> p" by auto
    with cin have 1: "c' \<in> set (ops ?fl')" by (simp add: ops')
    have 2: "op_at ?fl' c' = op_at fl c'" using cin ne by (rule same)
    from r' have "r' \<in> set (inputs (op_at fl c'))" by (simp add: at_SomeD)
    with sc(2) [OF cin ne] have "r' \<noteq> r" by auto
    then have 3: "producer ?fl' r' = Some p'" using p' by (simp add: bypassed_producer [OF ip op])
    from mc un have "op_type (op_at fl c) = C" by (auto simp: matches_def)
    with tp' PC have "p' \<noteq> c" by auto
    with pin' have 4: "op_at ?fl' p' = op_at fl p'" by (rule same)
    from 2 3 4 t' r' tp' op' have "matches ?fl' P i C c'"
      by (simp add: matches_def at_def)
    with 1 show ?thesis ..
  qed
  from dm have "distinct ms" by simp
  with d' un' keep show ?thesis by (simp add: live_matches_def)
qed

lemma bypass_pass_induct:
  assumes PC: "P \<noteq> C" and TP: "T \<noteq> P" and ok: "\<And>u. ok u \<Longrightarrow> u \<le> 1"
    and lm: "live_matches fl P i C ms" and Q: "Q fl n ms"
    and step: "\<And>fl n c ms p r b. live_matches fl P i C (c # ms) \<Longrightarrow> Q fl n (c # ms) \<Longrightarrow>
        at (inputs (op_at fl c)) i = Some r \<Longrightarrow> producer fl r = Some p \<Longrightarrow>
        op_type (op_at fl p) = P \<Longrightarrow>
        inputs (op_at fl p) = [b] \<Longrightarrow> outputs (op_at fl p) = [r] \<Longrightarrow>
        (if ok (usages fl r) \<and> \<not> out fl r then Q (bypassed T sw fl p c) (n + 1) ms else Q fl n ms)"
  shows "\<exists>fl' n'. for_each (bypass_body T i ok sw) ms (fl, n) = Some (fl', n') \<and> Q fl' n' []"
  using lm Q
proof (induction ms arbitrary: fl n)
  case Nil
  then show ?case by simp
next
  case (Cons c ms)
  from Cons.prems(1) have un: "unary fl P" and mc: "matches fl P i C c"
    by (auto simp: live_matches_def)
  from mc un obtain p r b where r: "at (inputs (op_at fl c)) i = Some r"
    and p: "producer fl r = Some p" and tp: "op_type (op_at fl p) = P"
    and ip: "inputs (op_at fl p) = [b]" and op: "outputs (op_at fl p) = [r]"
    by (rule matchesD)
  note st = step [OF Cons.prems(1) Cons.prems(2) r p tp ip op]
  note eq = bypass_body_eq [OF r p op, of T ok sw n]
  show ?case
  proof (cases "ok (usages fl r) \<and> \<not> out fl r")
    case True
    then have u: "usages fl r \<le> 1" using ok by blast
    have lm': "live_matches (bypassed T sw fl p c) P i C ms"
      by (rule live_matches_bypassed [OF Cons.prems(1) PC TP r p tp ip op u])
    from st True have Q': "Q (bypassed T sw fl p c) (n + 1) ms" by simp
    from Cons.IH [OF lm' Q'] eq True show ?thesis by simp
  next
    case False
    have lm': "live_matches fl P i C ms" by (rule live_matches_tail [OF Cons.prems(1)])
    from st False have Q': "Q fl n ms" by simp
    from Cons.IH [OF lm' Q'] eq False show ?thesis by simp
  qed
qed

lemma live_matches_Find:
  "distinct (ops fl) \<Longrightarrow> unary fl P \<Longrightarrow> live_matches fl P i C (Find fl P i C)"
  by (simp add: live_matches_def Find_def)

lemma bypassed_frame:
  assumes lm: "live_matches fl P i C (c # ms)" and PC: "P \<noteq> C"
    and r: "at (inputs (op_at fl c)) i = Some r" and p: "producer fl r = Some p"
    and tp: "op_type (op_at fl p) = P"
    and ip: "inputs (op_at fl p) = [b]" and op: "outputs (op_at fl p) = [r]"
    and u: "usages fl r \<le> 1" and l: "sw \<longrightarrow> 1 \<le> i"
  shows "ops (bypassed T sw fl p c) = removeAll p (ops fl)"
    and "var_at (bypassed T sw fl p c) = var_at fl"
    and "blocks (bypassed T sw fl p c) = blocks fl"
    and "\<And>t. t \<in> set (ops fl) \<Longrightarrow> t \<noteq> c \<Longrightarrow>
           op_at (bypassed T sw fl p c) t = op_at fl t \<and> r \<notin> set (inputs (op_at fl t))"
    and "op_at (bypassed T sw fl p c) c =
           (op_at fl c)\<lparr>op_type := T,
              inputs := swapped sw (map (\<lambda>v. if v = r then b else v) (inputs (op_at fl c)))\<rparr>"
    and "\<And>v. v \<noteq> r \<Longrightarrow> usages (bypassed T sw fl p c) v = usages fl v
           \<and> producer (bypassed T sw fl p c) v = producer fl v"
    and "c \<noteq> p" and "p \<in> set (ops fl)" and "c \<in> set (ops fl)"
    and "op_type (op_at fl c) = C"
proof -
  from lm have d: "distinct (ops fl)" and c: "c \<in> set (ops fl)" and mc: "matches fl P i C c"
    by (auto simp: live_matches_def)
  from mc have tc: "op_type (op_at fl c) = C" by (simp add: matches_def)
  from p have pin: "p \<in> set (ops fl)" by (simp add: producer_SomeD)
  from tc tp PC have cp: "c \<noteq> p" by auto
  from r have rin: "r \<in> set (inputs (op_at fl c))" and li: "i < length (inputs (op_at fl c))"
    by (simp_all add: at_SomeD)
  note sc = sole_consumer [OF d c rin u]
  show "ops (bypassed T sw fl p c) = removeAll p (ops fl)" by (rule bypassed_ops [OF ip op])
  show "var_at (bypassed T sw fl p c) = var_at fl" by (simp add: bypassed_vars [OF ip op])
  show "blocks (bypassed T sw fl p c) = blocks fl" by (simp add: bypassed_vars [OF ip op])
  show "op_at (bypassed T sw fl p c) t = op_at fl t \<and> r \<notin> set (inputs (op_at fl t))"
    if "t \<in> set (ops fl)" "t \<noteq> c" for t
    using that sc(2) [of t] by (simp add: bypassed_other [OF ip op] redirect_id)
  show "op_at (bypassed T sw fl p c) c =
           (op_at fl c)\<lparr>op_type := T,
              inputs := swapped sw (map (\<lambda>v. if v = r then b else v) (inputs (op_at fl c)))\<rparr>"
    by (rule bypassed_self [OF ip op])
  have len: "1 < length (inputs (op_at fl c))" if sw using l that li by simp
  show "usages (bypassed T sw fl p c) v = usages fl v
           \<and> producer (bypassed T sw fl p c) v = producer fl v" if "v \<noteq> r" for v
  proof
    show "usages (bypassed T sw fl p c) v = usages fl v"
      by (rule bypassed_usages [OF d c pin cp ip op rin u _ that]) (rule len)
    show "producer (bypassed T sw fl p c) v = producer fl v"
      by (rule bypassed_producer [OF ip op that])
  qed
  show "c \<noteq> p" by (rule cp)
  show "p \<in> set (ops fl)" by (rule pin)
  show "c \<in> set (ops fl)" by (rule c)
  show "op_type (op_at fl c) = C" by (rule tc)
qed

lemma bypass_pass_target:
  assumes PC: "P \<noteq> C" and TP: "T \<noteq> P" and ok: "\<And>u. ok u \<Longrightarrow> u \<le> 1"
    and l: "sw \<longrightarrow> 1 \<le> i"
    and lm: "live_matches fl P i C ms" and c0: "c0 \<in> set ms"
    and r0: "at (inputs (op_at fl c0)) i = Some r0" and p0: "producer fl r0 = Some p0"
    and ip0: "inputs (op_at fl p0) = [b0]"
  shows "\<exists>fl' n'. for_each (bypass_body T i ok sw) ms (fl, n) = Some (fl', n') \<and>
      c0 \<in> set (ops fl') \<and> var_at fl' = var_at fl \<and> blocks fl' = blocks fl \<and>
      (if ok (usages fl r0) \<and> \<not> out fl r0
       then n < n' \<and> p0 \<notin> set (ops fl') \<and>
            op_at fl' c0 = (op_at fl c0)\<lparr>op_type := T,
              inputs := swapped sw (map (\<lambda>v. if v = r0 then b0 else v) (inputs (op_at fl c0)))\<rparr>
       else n \<le> n' \<and> p0 \<in> set (ops fl') \<and> op_at fl' c0 = op_at fl c0 \<and>
            op_at fl' p0 = op_at fl p0)"
proof -
  define A0 where "A0 = op_at fl c0"
  define B0 where "B0 = op_at fl p0"
  define rem where "rem = (ok (usages fl r0) \<and> \<not> out fl r0)"
  define Fin where "Fin = (\<lambda>(fl'::Flow) n'.
     if rem then n < n' \<and> p0 \<notin> set (ops fl') \<and>
       op_at fl' c0 = A0\<lparr>op_type := T,
         inputs := swapped sw (map (\<lambda>v. if v = r0 then b0 else v) (inputs A0))\<rparr>
     else p0 \<in> set (ops fl') \<and> op_at fl' c0 = A0 \<and> op_at fl' p0 = B0)"
  define Pend where "Pend = (\<lambda>fl'::Flow. op_at fl' c0 = A0 \<and> op_at fl' p0 = B0 \<and>
     producer fl' r0 = Some p0 \<and> usages fl' r0 = usages fl r0)"
  define Q where "Q = (\<lambda>(fl'::Flow) n' (ms'::op_ptr list). n \<le> n' \<and> c0 \<in> set (ops fl') \<and> var_at fl' = var_at fl \<and>
     blocks fl' = blocks fl \<and> (if c0 \<in> set ms' then Pend fl' else Fin fl' n'))"
  from lm c0 have un: "unary fl P" and c0in: "c0 \<in> set (ops fl)" and m0: "matches fl P i C c0"
    by (auto simp: live_matches_def)
  from m0 un r0 p0 ip0 have tA: "op_type A0 = C" and tB: "op_type B0 = P"
    and oB: "outputs B0 = [r0]" and iB: "inputs B0 = [b0]"
    by (auto elim!: matchesD simp: A0_def B0_def)
  from r0 have rA: "at (inputs A0) i = Some r0" by (simp add: A0_def)
  then have r0in: "r0 \<in> set (inputs A0)" by (simp add: at_SomeD)
  have Q0: "Q fl n ms"
    using c0 c0in p0 by (simp add: Q_def Pend_def A0_def B0_def)
  have step: "if ok (usages fl1 r) \<and> \<not> out fl1 r then Q (bypassed T sw fl1 p c) (n1 + 1) ms1
      else Q fl1 n1 ms1"
    if lm1: "live_matches fl1 P i C (c # ms1)" and Q1: "Q fl1 n1 (c # ms1)"
      and r: "at (inputs (op_at fl1 c)) i = Some r" and p: "producer fl1 r = Some p"
      and tp: "op_type (op_at fl1 p) = P"
      and ip: "inputs (op_at fl1 p) = [b]" and op: "outputs (op_at fl1 p) = [r]"
    for fl1 n1 c ms1 p r b
  proof -
    from lm1 have dm: "c \<notin> set ms1" by (simp add: live_matches_def)
    from Q1 have nn: "n \<le> n1" and c0in1: "c0 \<in> set (ops fl1)" and va: "var_at fl1 = var_at fl"
      and bl: "blocks fl1 = blocks fl"
      and st: "if c0 \<in> set (c # ms1) then Pend fl1 else Fin fl1 n1"
      by (simp_all add: Q_def)
    show ?thesis
    proof (cases "ok (usages fl1 r) \<and> \<not> out fl1 r")
      case nr: False
      show ?thesis
      proof (cases "c = c0")
        case c: True
        with st have pe: "Pend fl1" by simp
        from pe r c rA have rr: "r = r0" by (simp add: Pend_def)
        from pe have "usages fl1 r0 = usages fl r0" by (simp add: Pend_def)
        with nr rr va have nrem: "\<not> rem" by (simp add: rem_def out_def)
        from pe have "producer fl1 r0 = Some p0" by (simp add: Pend_def)
        then have "p0 \<in> set (ops fl1)" by (simp add: producer_SomeD)
        with pe nrem have "Fin fl1 n1" by (simp add: Fin_def Pend_def)
        with c dm nr nn c0in1 va bl show ?thesis by (auto simp: Q_def)
      next
        case ne: False
        with st nr nn c0in1 va bl show ?thesis by (auto simp: Q_def)
      qed
    next
      case yr: True
      then have u: "usages fl1 r \<le> 1" using ok by blast
      note fr = bypassed_frame [OF lm1 PC r p tp ip op u l]
      let ?fl' = "bypassed T sw fl1 p c"
      have base: "n \<le> n1 + 1" "var_at ?fl' = var_at fl" "blocks ?fl' = blocks fl"
        using nn va bl fr(2,3) by simp_all
      show ?thesis
      proof (cases "c = c0")
        case c: True
        with st have pe: "Pend fl1" by simp
        from pe r c rA have rr: "r = r0" by (simp add: Pend_def)
        from pe p rr have pp: "p = p0" by (simp add: Pend_def)
        from pe ip pp iB have bb: "b = b0" by (simp add: Pend_def)
        from pe have "usages fl1 r0 = usages fl r0" by (simp add: Pend_def)
        with yr rr va have isrem: "rem" by (simp add: rem_def out_def)
        from pe have A: "op_at fl1 c0 = A0" by (simp add: Pend_def)
        have "Fin ?fl' (n1 + 1)"
          using isrem nn fr(1,5) A unfolding c rr pp bb by (simp add: Fin_def)
        moreover have "c0 \<in> set (ops ?fl')" using fr(1,7,9) unfolding c by simp
        ultimately show ?thesis using yr base dm unfolding c by (simp add: Q_def)
      next
        case ne: False
        from fr(4) [OF c0in1] ne have same0: "op_at ?fl' c0 = op_at fl1 c0"
          and rn0: "r \<notin> set (inputs (op_at fl1 c0))" by simp_all
        show ?thesis
        proof (cases "c0 \<in> set ms1")
          case pend: True
          with st have pe: "Pend fl1" by simp
          from pe have A: "op_at fl1 c0 = A0" and B: "op_at fl1 p0 = B0"
            and pr: "producer fl1 r0 = Some p0" by (simp_all add: Pend_def)
          from A tA fr(10) PC tp have "c0 \<noteq> p" by auto
          with c0in1 fr(1) have in': "c0 \<in> set (ops ?fl')" by simp
          from rn0 A r0in have rne: "r0 \<noteq> r" by auto
          from pr have p0in: "p0 \<in> set (ops fl1)" by (simp add: producer_SomeD)
          from B tB fr(10) PC have "p0 \<noteq> c" by auto
          with fr(4) [OF p0in] have sameB: "op_at ?fl' p0 = op_at fl1 p0" by simp
          from fr(6) [OF rne] pe same0 sameB have "Pend ?fl'" by (simp add: Pend_def)
          with yr base in' pend show ?thesis by (simp add: Q_def)
        next
          case fin: False
          with st ne have fi: "Fin fl1 n1" by simp
          have F': "Fin ?fl' (n1 + 1)"
          proof (cases rem)
            case True
            with fi same0 fr(1) show ?thesis by (simp add: Fin_def)
          next
            case nrem: False
            with fi have p0in: "p0 \<in> set (ops fl1)" and A: "op_at fl1 c0 = A0"
              and B: "op_at fl1 p0 = B0" by (simp_all add: Fin_def)
            from B tB fr(10) PC have "p0 \<noteq> c" by auto
            with fr(4) [OF p0in] have sameB: "op_at ?fl' p0 = op_at fl1 p0" by simp
            have "p0 \<noteq> p"
            proof
              assume "p0 = p"
              with B op oB have "r = r0" by simp
              with rn0 A r0in show False by simp
            qed
            with p0in fr(1) have "p0 \<in> set (ops ?fl')" by simp
            with nrem same0 sameB A B show ?thesis by (simp add: Fin_def)
          qed
          have "c0 \<noteq> p"
          proof
            assume e: "c0 = p"
            show False
            proof (cases rem)
              case True
              with fi have "op_type (op_at fl1 c0) = T" by (simp add: Fin_def)
              with e tp TP show False by simp
            next
              case False
              with fi have "op_type (op_at fl1 c0) = C" using tA by (simp add: Fin_def)
              with e tp PC show False by simp
            qed
          qed
          with F' show ?thesis using yr base fin c0in1 fr(1) by (simp add: Q_def)
        qed
      qed
    qed
  qed
  have "\<exists>fl' n'. for_each (bypass_body T i ok sw) ms (fl, n) = Some (fl', n') \<and> Q fl' n' []"
  proof (rule bypass_pass_induct [where Q = Q and P = P and C = C, OF PC TP _ lm Q0])
    show "u \<le> 1" if "ok u" for u using that by (rule ok)
    show "if ok (usages fl1 r) \<and> \<not> out fl1 r then Q (bypassed T sw fl1 p c) (n1 + 1) ms1
      else Q fl1 n1 ms1"
      if "live_matches fl1 P i C (c # ms1)" "Q fl1 n1 (c # ms1)"
        "at (inputs (op_at fl1 c)) i = Some r" "producer fl1 r = Some p"
        "op_type (op_at fl1 p) = P"
        "inputs (op_at fl1 p) = [b]" "outputs (op_at fl1 p) = [r]"
      for fl1 n1 c ms1 p r b
      using that by (rule step)
  qed
  then obtain fl' n' where run: "for_each (bypass_body T i ok sw) ms (fl, n) = Some (fl', n')"
    and Q': "Q fl' n' []" by blast
  from Q' have "n \<le> n'" "c0 \<in> set (ops fl')" "var_at fl' = var_at fl" "blocks fl' = blocks fl"
    "Fin fl' n'" by (simp_all add: Q_def)
  with run show ?thesis
    unfolding Fin_def rem_def A0_def B0_def by (intro exI [of _ fl'] exI [of _ n']) auto
qed


lemma bypass_pass_basic:
  assumes PC: "P \<noteq> C" and TP: "T \<noteq> P" and ok: "\<And>u. ok u \<Longrightarrow> u \<le> 1"
    and l: "sw \<longrightarrow> 1 \<le> i"
    and lm: "live_matches fl P i C ms"
  shows "\<exists>fl' n'. for_each (bypass_body T i ok sw) ms (fl, n) = Some (fl', n') \<and> n \<le> n' \<and>
      distinct (ops fl') \<and> unary fl' P \<and> set (ops fl') \<subseteq> set (ops fl) \<and>
      var_at fl' = var_at fl \<and> blocks fl' = blocks fl"
proof -
  define Q where "Q = (\<lambda>(fl'::Flow) n' (ms'::op_ptr list). n \<le> n' \<and>
     set (ops fl') \<subseteq> set (ops fl) \<and> var_at fl' = var_at fl \<and> blocks fl' = blocks fl \<and>
     live_matches fl' P i C ms')"
  have Q0: "Q fl n ms" using lm by (simp add: Q_def)
  have "\<exists>fl' n'. for_each (bypass_body T i ok sw) ms (fl, n) = Some (fl', n') \<and> Q fl' n' []"
  proof (rule bypass_pass_induct [where Q = Q and P = P and C = C, OF PC TP _ lm Q0])
    show "u \<le> 1" if "ok u" for u using that by (rule ok)
    show "if ok (usages fl1 r) \<and> \<not> out fl1 r then Q (bypassed T sw fl1 p c) (n1 + 1) ms1
      else Q fl1 n1 ms1"
      if lm1: "live_matches fl1 P i C (c # ms1)" and Q1: "Q fl1 n1 (c # ms1)"
        and r: "at (inputs (op_at fl1 c)) i = Some r" and p: "producer fl1 r = Some p"
        and tp: "op_type (op_at fl1 p) = P"
        and ip: "inputs (op_at fl1 p) = [b]" and op: "outputs (op_at fl1 p) = [r]"
      for fl1 n1 c ms1 p r b
    proof (cases "ok (usages fl1 r) \<and> \<not> out fl1 r")
      case True
      then have u: "usages fl1 r \<le> 1" using ok by blast
      note fr = bypassed_frame [OF lm1 PC r p tp ip op u l]
      have "live_matches (bypassed T sw fl1 p c) P i C ms1"
        by (rule live_matches_bypassed [OF lm1 PC TP r p tp ip op u])
      with True Q1 fr(1,2,3) show ?thesis by (auto simp: Q_def)
    next
      case False
      with Q1 live_matches_tail [OF lm1] show ?thesis by (auto simp: Q_def)
    qed
  qed
  then show ?thesis by (auto simp: Q_def live_matches_def)
qed

lemma bypass_pass_unchanged:
  assumes PC: "P \<noteq> C" and TP: "T \<noteq> P" and ok: "\<And>u. ok u \<Longrightarrow> u \<le> 1"
    and l: "sw \<longrightarrow> 1 \<le> i"
    and lm: "live_matches fl P i C ms"
    and c0in: "c0 \<in> set (ops fl)" and ty: "op_type (op_at fl c0) \<noteq> P"
    and nrem: "c0 \<in> set ms \<Longrightarrow>
       \<exists>r. at (inputs (op_at fl c0)) i = Some r \<and> \<not> (ok (usages fl r) \<and> \<not> out fl r)"
  shows "\<exists>fl' n'. for_each (bypass_body T i ok sw) ms (fl, n) = Some (fl', n') \<and>
      c0 \<in> set (ops fl') \<and> op_at fl' c0 = op_at fl c0 \<and>
      (\<forall>v \<in> set (inputs (op_at fl c0)).
         usages fl' v = usages fl v \<and> producer fl' v = producer fl v \<and>
         (\<forall>q. producer fl v = Some q \<and> op_type (op_at fl q) = P \<longrightarrow> op_at fl' q = op_at fl q))"
proof -
  define A0 where "A0 = op_at fl c0"
  define U where "U = (\<lambda>fl'::Flow. c0 \<in> set (ops fl') \<and> op_at fl' c0 = A0 \<and>
     (\<forall>v \<in> set (inputs A0).
         usages fl' v = usages fl v \<and> producer fl' v = producer fl v \<and>
         (\<forall>q. producer fl v = Some q \<and> op_type (op_at fl q) = P \<longrightarrow> op_at fl' q = op_at fl q)))"
  define Q where "Q = (\<lambda>(fl'::Flow) (n'::nat) (ms'::op_ptr list).
     set ms' \<subseteq> set ms \<and> var_at fl' = var_at fl \<and> U fl')"
  have Q0: "Q fl n ms" using c0in by (simp add: Q_def U_def A0_def)
  have tA: "op_type A0 \<noteq> P" using ty by (simp add: A0_def)
  have "\<exists>fl' n'. for_each (bypass_body T i ok sw) ms (fl, n) = Some (fl', n') \<and> Q fl' n' []"
  proof (rule bypass_pass_induct [where Q = Q and P = P and C = C, OF PC TP _ lm Q0])
    show "u \<le> 1" if "ok u" for u using that by (rule ok)
    show "if ok (usages fl1 r) \<and> \<not> out fl1 r then Q (bypassed T sw fl1 p c) (n1 + 1) ms1
      else Q fl1 n1 ms1"
      if lm1: "live_matches fl1 P i C (c # ms1)" and Q1: "Q fl1 n1 (c # ms1)"
        and r: "at (inputs (op_at fl1 c)) i = Some r" and p: "producer fl1 r = Some p"
        and tp: "op_type (op_at fl1 p) = P"
        and ip: "inputs (op_at fl1 p) = [b]" and op: "outputs (op_at fl1 p) = [r]"
      for fl1 n1 c ms1 p r b
    proof (cases "ok (usages fl1 r) \<and> \<not> out fl1 r")
      case False
      with Q1 show ?thesis by (auto simp: Q_def)
    next
      case yr: True
      then have u: "usages fl1 r \<le> 1" using ok by blast
      note fr = bypassed_frame [OF lm1 PC r p tp ip op u l]
      let ?fl' = "bypassed T sw fl1 p c"
      from Q1 have va: "var_at fl1 = var_at fl" and U1: "U fl1" and sub: "c \<in> set ms"
        and sub1: "set ms1 \<subseteq> set ms" by (simp_all add: Q_def)
      from U1 have c0in1: "c0 \<in> set (ops fl1)" and A: "op_at fl1 c0 = A0"
        and vs: "\<And>v. v \<in> set (inputs A0) \<Longrightarrow> usages fl1 v = usages fl v \<and>
              producer fl1 v = producer fl v \<and>
              (\<forall>q. producer fl v = Some q \<and> op_type (op_at fl q) = P \<longrightarrow> op_at fl1 q = op_at fl q)"
        by (simp_all add: U_def)
      have ne: "c \<noteq> c0"
      proof
        assume e: "c = c0"
        from r e A have r0: "at (inputs (op_at fl c0)) i = Some r" by (simp add: A0_def)
        then have rin: "r \<in> set (inputs A0)" by (simp add: A0_def at_SomeD)
        have "usages fl1 r = usages fl r" using vs [OF rin] by simp
        with yr va have rem0: "ok (usages fl r) \<and> \<not> out fl r" by (simp add: out_def)
        from sub e have "c0 \<in> set ms" by simp
        from nrem [OF this] r0 rem0 show False by auto
      qed
      from fr(4) [OF c0in1] ne have same0: "op_at ?fl' c0 = op_at fl1 c0"
        and rn0: "r \<notin> set (inputs (op_at fl1 c0))" by simp_all
      from A tA tp have "c0 \<noteq> p" by auto
      with c0in1 fr(1) have in': "c0 \<in> set (ops ?fl')" by simp
      have "usages ?fl' v = usages fl v \<and> producer ?fl' v = producer fl v \<and>
            (\<forall>q. producer fl v = Some q \<and> op_type (op_at fl q) = P \<longrightarrow> op_at ?fl' q = op_at fl q)"
        if v: "v \<in> set (inputs A0)" for v
      proof -
        from v rn0 A have vr: "v \<noteq> r" by auto
        note vv = vs [OF v]
        have "op_at ?fl' q = op_at fl q" if q: "producer fl v = Some q" "op_type (op_at fl q) = P" for q
        proof -
          from vv q have e: "op_at fl1 q = op_at fl q" by simp
          from vv q have "producer fl1 v = Some q" by simp
          then have qin: "q \<in> set (ops fl1)" by (simp add: producer_SomeD)
          from e q fr(10) PC have "q \<noteq> c" by auto
          with fr(4) [OF qin] e show ?thesis by simp
        qed
        with fr(6) [OF vr] vv show ?thesis by simp
      qed
      with yr va fr(2) in' same0 A sub1 show ?thesis by (simp add: Q_def U_def)
    qed
  qed
  then show ?thesis by (auto simp: Q_def U_def A0_def)
qed

lemma count_le_usages:
  "t \<in> set (ops fl) \<Longrightarrow> count_list (inputs (op_at fl t)) v \<le> usages fl v"
proof -
  assume "t \<in> set (ops fl)"
  then have "count_list (inputs (op_at fl t)) v
      \<in> set (map (\<lambda>t. count_list (inputs (op_at fl t)) v) (ops fl))" by simp
  then show ?thesis unfolding usages_sum by (rule member_le_sum_list) simp
qed

lemma unary_outputs:
  assumes "unary fl P" "producer fl r = Some p" "op_type (op_at fl p) = P"
  shows "outputs (op_at fl p) = [r]"
proof -
  from assms(2) have p: "p \<in> set (ops fl)" and r: "r \<in> set (outputs (op_at fl p))"
    by (simp_all add: producer_SomeD)
  with assms(1,3) have "length (outputs (op_at fl p)) = 1" by (simp add: unary_def)
  with r show ?thesis by (cases "outputs (op_at fl p)") auto
qed

text \<open>
  C6, as amended. In a flow whose operations are distinct and whose \<open>Neg\<close> operations are
  unary, let \<open>Add(a, r)\<close> be a live operation whose input 1 is the output \<open>r\<close> of \<open>Neg(b)\<close>,
  where \<open>r\<close> has one usage and is not a flow output. Then \<open>AddNegToSubTransformer\<close> returns
  with a change, the \<open>Neg\<close> has left the flow and the \<open>Add\<close> is \<open>Sub(a, b)\<close>.
\<close>

theorem AddNegToSub_rewrites:
  assumes d: "distinct (ops fl)" and un: "unary fl ''Neg''"
    and add: "add \<in> set (ops fl)" and ta: "op_type (op_at fl add) = ''Add''"
    and ia: "inputs (op_at fl add) = [a, r]"
    and p: "producer fl r = Some neg" and tn: "op_type (op_at fl neg) = ''Neg''"
    and ineg: "inputs (op_at fl neg) = [b]"
    and u: "usages fl r = 1" and o: "\<not> out fl r"
  shows "\<exists>fl'. AddNegToSubTransformer fl = Some (fl', True) \<and>
      neg \<notin> set (ops fl') \<and> add \<in> set (ops fl') \<and>
      op_type (op_at fl' add) = ''Sub'' \<and> inputs (op_at fl' add) = [a, b] \<and>
      outputs (op_at fl' add) = outputs (op_at fl add)"
proof -
  let ?ms = "Find fl ''Neg'' 1 ''Add''"
  have lm: "live_matches fl ''Neg'' 1 ''Add'' ?ms" using d un by (rule live_matches_Find)
  have on: "outputs (op_at fl neg) = [r]" using un p tn by (rule unary_outputs)
  have r1: "at (inputs (op_at fl add)) 1 = Some r" using ia by (simp add: at_def)
  have "matches fl ''Neg'' 1 ''Add'' add"
    using ta r1 p tn on by (simp add: matches_def at_def)
  with add have c0: "add \<in> set ?ms" by (simp add: Find_def)
  from count_le_usages [OF add, of r] u ia have ar: "a \<noteq> r" by (auto split: if_splits)
  from bypass_pass_target [where T = "''Sub''" and ok = "\<lambda>u. u = 1" and sw = False and n = 0,
      OF _ _ _ _ lm c0 r1 p ineg]
  obtain fl' n' where run: "for_each (bypass_body ''Sub'' 1 (\<lambda>u. u = 1) False) ?ms (fl, 0) = Some (fl', n')"
    and res: "add \<in> set (ops fl')" "0 < n'" "neg \<notin> set (ops fl')"
      "op_at fl' add = (op_at fl add)\<lparr>op_type := ''Sub'',
         inputs := swapped False (map (\<lambda>v. if v = r then b else v) (inputs (op_at fl add)))\<rparr>"
    using u o by auto
  from run res(2) have "AddNegToSubTransformer fl = Some (fl', True)"
    by (simp add: AddNegToSubTransformer_def AddNegToSub_body_bypass)
  with res ia ar show ?thesis by (simp add: swapped_def)
qed

theorem AddNegToSub_rewrites_witness:
  "distinct (ops (add_neg_flow False)) \<and> usages (add_neg_flow False) 2 = 1 \<and>
   \<not> out (add_neg_flow False) 2 \<and>
   (\<exists>fl'. AddNegToSubTransformer (add_neg_flow False) = Some (fl', True) \<and>
      0 \<notin> set (ops fl') \<and> 1 \<in> set (ops fl') \<and>
      op_type (op_at fl' 1) = ''Sub'' \<and> inputs (op_at fl' 1) = [0, 1] \<and>
      outputs (op_at fl' 1) = [3])"
proof -
  let ?fl = "add_neg_flow False"
  have d: "distinct (ops ?fl)" by (simp add: add_neg_flow_def)
  have un: "unary ?fl ''Neg''" by (simp add: unary_def add_neg_flow_def example_op_def)
  have add: "1 \<in> set (ops ?fl)" by (simp add: add_neg_flow_def)
  have ta: "op_type (op_at ?fl 1) = ''Add''" by (simp add: add_neg_flow_def example_op_def)
  have ia: "inputs (op_at ?fl 1) = [0, 2]" by (simp add: add_neg_flow_def example_op_def)
  have p: "producer ?fl 2 = Some 0" by (simp add: producer_def add_neg_flow_def example_op_def)
  have tn: "op_type (op_at ?fl 0) = ''Neg''" by (simp add: add_neg_flow_def example_op_def)
  have ineg: "inputs (op_at ?fl 0) = [1]" by (simp add: add_neg_flow_def example_op_def)
  have u: "usages ?fl 2 = 1"
    by (simp add: usages_def consumers_def add_neg_flow_def example_op_def)
  have o: "\<not> out ?fl 2" by (simp add: out_def add_neg_flow_def example_var_def)
  have oa: "outputs (op_at ?fl 1) = [3]" by (simp add: add_neg_flow_def example_op_def)
  from AddNegToSub_rewrites [OF d un add ta ia p tn ineg u o] d u o oa
  show ?thesis by simp
qed

text \<open>
  C6 as stated has no condition on the output flag: when the output of the \<open>Neg\<close> is a flow
  output, has the \<open>Add\<close> as its only consumer and is its input 1, the transformer leaves the
  flow as it is.
\<close>

theorem AddNegToSub_output_counterexample:
  "op_type (op_at (add_neg_flow True) 1) = ''Add'' \<and>
   inputs (op_at (add_neg_flow True) 1) = [0, 2] \<and>
   producer (add_neg_flow True) 2 = Some 0 \<and>
   op_type (op_at (add_neg_flow True) 0) = ''Neg'' \<and>
   inputs (op_at (add_neg_flow True) 0) = [1] \<and>
   consumers (add_neg_flow True) 2 = [1] \<and>
   AddNegToSubTransformer (add_neg_flow True) = Some (add_neg_flow True, False)"
  by (simp add: AddNegToSubTransformer_def AddNegToSub_body_def Find_def matches_def at_def
      producer_def usages_def consumers_def out_def add_neg_flow_def example_op_def example_var_def)

lemma Rsqrt_body_bypass: "Rsqrt_body = bypass_body ''Rsqrt'' 0 (\<lambda>u. \<not> 1 < u) False"
  by (intro ext) (simp add: Rsqrt_body_def bypass_body_def split: prod.splits option.splits)

text \<open>
  C5. Let \<open>fl1\<close> be the flow after the first loop of \<open>DivTransformer\<close>, with distinct
  operations and unary \<open>Sqrt\<close> operations, and let \<open>Reciprocal(s)\<close> be a live operation whose
  input is the output \<open>s\<close> of \<open>Sqrt(x)\<close>. The transformer returns; if \<open>s\<close> has one usage and is
  not a flow output, the \<open>Sqrt\<close> has left the flow and the \<open>Reciprocal\<close> is \<open>Rsqrt(x)\<close>;
  otherwise both operations are in the flow as they were.
\<close>

theorem Rsqrt_collapse:
  assumes loop1: "for_each (DivToMul_body reciprocal) (ops fl) (fl, 0) = Some (fl1, n1)"
    and d: "distinct (ops fl1)" and un: "unary fl1 ''Sqrt''"
    and rcp: "rcp \<in> set (ops fl1)" and tr: "op_type (op_at fl1 rcp) = ''Reciprocal''"
    and ir: "inputs (op_at fl1 rcp) = [s]"
    and p: "producer fl1 s = Some sqrt" and ts: "op_type (op_at fl1 sqrt) = ''Sqrt''"
    and isq: "inputs (op_at fl1 sqrt) = [x]"
  shows "\<exists>fl' changed. DivTransformer reciprocal fl = Some (fl', changed) \<and> rcp \<in> set (ops fl') \<and>
      (if usages fl1 s = 1 \<and> \<not> out fl1 s
       then changed \<and> sqrt \<notin> set (ops fl') \<and>
            op_type (op_at fl' rcp) = ''Rsqrt'' \<and> inputs (op_at fl' rcp) = [x]
       else sqrt \<in> set (ops fl') \<and> op_at fl' rcp = op_at fl1 rcp \<and>
            op_at fl' sqrt = op_at fl1 sqrt)"
proof -
  let ?ms = "Find fl1 ''Sqrt'' 0 ''Reciprocal''"
  have lm: "live_matches fl1 ''Sqrt'' 0 ''Reciprocal'' ?ms" using d un by (rule live_matches_Find)
  have os: "outputs (op_at fl1 sqrt) = [s]" using un p ts by (rule unary_outputs)
  have r0: "at (inputs (op_at fl1 rcp)) 0 = Some s" using ir by (simp add: at_def)
  have "matches fl1 ''Sqrt'' 0 ''Reciprocal'' rcp"
    using tr r0 p ts os by (simp add: matches_def at_def)
  with rcp have c0: "rcp \<in> set ?ms" by (simp add: Find_def)
  from count_le_usages [OF rcp, of s] ir have u1: "1 \<le> usages fl1 s" by simp
  then have cond: "(\<not> 1 < usages fl1 s \<and> \<not> out fl1 s) = (usages fl1 s = 1 \<and> \<not> out fl1 s)"
    by auto
  from bypass_pass_target [where T = "''Rsqrt''" and ok = "\<lambda>u. \<not> 1 < u" and sw = False and n = n1,
      OF _ _ _ _ lm c0 r0 p isq]
  obtain fl' n' where run: "for_each (bypass_body ''Rsqrt'' 0 (\<lambda>u. \<not> 1 < u) False) ?ms (fl1, n1) = Some (fl', n')"
    and res: "rcp \<in> set (ops fl')"
      "if usages fl1 s = 1 \<and> \<not> out fl1 s
       then n1 < n' \<and> sqrt \<notin> set (ops fl') \<and>
            op_at fl' rcp = (op_at fl1 rcp)\<lparr>op_type := ''Rsqrt'',
              inputs := swapped False (map (\<lambda>v. if v = s then x else v) (inputs (op_at fl1 rcp)))\<rparr>
       else n1 \<le> n' \<and> sqrt \<in> set (ops fl') \<and> op_at fl' rcp = op_at fl1 rcp \<and>
            op_at fl' sqrt = op_at fl1 sqrt"
    unfolding cond by auto
  from run loop1 have "DivTransformer reciprocal fl = Some (fl', 0 < n')"
    by (simp add: DivTransformer_def Rsqrt_body_bypass)
  with res ir show ?thesis by (auto simp: swapped_def split: if_splits)
qed

lemma float_one_bytes: "float_of_bytes [0, 0, 0x80, 0x3F] = Some float_one"
  by (simp add: float_of_bytes_def float_one_def)

lemma rsqrt_flow_loop1:
  "for_each (DivToMul_body rc) (ops (rsqrt_flow b)) (rsqrt_flow b, 0)
     = Some (RemoveInput (set_type (rsqrt_flow b) 1 ''Reciprocal'') 1 2, 1)"
  by (simp add: DivToMul_body_def rsqrt_flow_def example_op_def example_var_def indegree_def
      elements_def is_constant_def usages_def consumers_def GetData_def read_float_def at_def
      float_one_bytes Let_def)


theorem Rsqrt_collapse_witness:
  "(\<exists>fl' changed. DivTransformer (\<lambda>c. c) (rsqrt_flow False) = Some (fl', changed) \<and>
      changed \<and> 1 \<in> set (ops fl') \<and> 0 \<notin> set (ops fl') \<and>
      op_type (op_at fl' 1) = ''Rsqrt'' \<and> inputs (op_at fl' 1) = [0]) \<and>
   (\<exists>fl' changed. DivTransformer (\<lambda>c. c) (rsqrt_flow True) = Some (fl', changed) \<and>
      1 \<in> set (ops fl') \<and> 0 \<in> set (ops fl') \<and>
      op_type (op_at fl' 0) = ''Sqrt'' \<and> inputs (op_at fl' 0) = [0] \<and>
      op_type (op_at fl' 1) = ''Reciprocal'' \<and> inputs (op_at fl' 1) = [1])"
proof -
  have w: "\<exists>fl' changed. DivTransformer (\<lambda>c. c) (rsqrt_flow b) = Some (fl', changed) \<and>
      1 \<in> set (ops fl') \<and>
      (if \<not> b
       then changed \<and> 0 \<notin> set (ops fl') \<and>
            op_type (op_at fl' 1) = ''Rsqrt'' \<and> inputs (op_at fl' 1) = [0]
       else 0 \<in> set (ops fl') \<and> op_type (op_at fl' 0) = ''Sqrt'' \<and> inputs (op_at fl' 0) = [0] \<and>
            op_type (op_at fl' 1) = ''Reciprocal'' \<and> inputs (op_at fl' 1) = [1])" for b
  proof -
    let ?fl1 = "RemoveInput (set_type (rsqrt_flow b) 1 ''Reciprocal'') 1 2"
    have d: "distinct (ops ?fl1)" by (simp add: RemoveInput_def set_type_def rsqrt_flow_def)
    have un: "unary ?fl1 ''Sqrt''"
      by (simp add: unary_def RemoveInput_def set_type_def rsqrt_flow_def example_op_def)
    have rcp: "1 \<in> set (ops ?fl1)" by (simp add: RemoveInput_def set_type_def rsqrt_flow_def)
    have tr: "op_type (op_at ?fl1 1) = ''Reciprocal''"
      by (simp add: RemoveInput_def set_type_def rsqrt_flow_def)
    have ir: "inputs (op_at ?fl1 1) = [1]"
      by (simp add: RemoveInput_def set_type_def rsqrt_flow_def example_op_def)
    have p: "producer ?fl1 1 = Some 0"
      by (simp add: producer_def RemoveInput_def set_type_def rsqrt_flow_def example_op_def)
    have ts: "op_type (op_at ?fl1 0) = ''Sqrt''"
      by (simp add: RemoveInput_def set_type_def rsqrt_flow_def example_op_def)
    have isq: "inputs (op_at ?fl1 0) = [0]"
      by (simp add: RemoveInput_def set_type_def rsqrt_flow_def example_op_def)
    have u: "usages ?fl1 1 = 1"
      by (simp add: usages_def consumers_def RemoveInput_def set_type_def rsqrt_flow_def
          example_op_def)
    have o: "out ?fl1 1 = b"
      by (simp add: out_def RemoveInput_def set_type_def rsqrt_flow_def example_var_def)
    from Rsqrt_collapse [OF rsqrt_flow_loop1 d un rcp tr ir p ts isq, of "\<lambda>c. c"]
    obtain fl' changed where run: "DivTransformer (\<lambda>c. c) (rsqrt_flow b) = Some (fl', changed)"
      and res: "1 \<in> set (ops fl')"
        "if \<not> b
         then changed \<and> 0 \<notin> set (ops fl') \<and>
              op_type (op_at fl' 1) = ''Rsqrt'' \<and> inputs (op_at fl' 1) = [0]
         else 0 \<in> set (ops fl') \<and> op_at fl' 1 = op_at ?fl1 1 \<and> op_at fl' 0 = op_at ?fl1 0"
      unfolding u o by auto
    from run res tr ir ts isq show ?thesis by (cases b) auto
  qed
  from w [of False] w [of True] show ?thesis by auto
qed

lemma AndNot0_body_bypass: "AndNot0_body = bypass_body ''AndNot'' 0 (\<lambda>u. u = 1) False"
  by (intro ext) (simp add: AndNot0_body_def bypass_body_def split: prod.splits option.splits)

lemma AndNot1_body_bypass: "AndNot1_body = bypass_body ''AndNot'' 1 (\<lambda>u. u = 1) True"
  by (intro ext) (simp add: AndNot1_body_def bypass_body_def split: prod.splits option.splits)

lemma merge_negations_first:
  assumes d: "distinct (ops fl1)" and un: "unary fl1 ''Not''"
    and c: "logand \<in> set (ops fl1)" and ta: "op_type (op_at fl1 logand) = ''And''"
    and ia: "inputs (op_at fl1 logand) = [r, y]"
    and p: "producer fl1 r = Some logneg" and tn: "op_type (op_at fl1 logneg) = ''Not''"
    and ineg: "inputs (op_at fl1 logneg) = [x]"
    and u: "usages fl1 r = 1" and o: "\<not> out fl1 r"
  shows "\<exists>fl' n'. merge_negations (fl1, n1) = Some (fl', n') \<and> 0 < n' \<and>
      logneg \<notin> set (ops fl') \<and> logand \<in> set (ops fl') \<and>
      op_type (op_at fl' logand) = ''AndNot'' \<and> inputs (op_at fl' logand) = [x, y]"
proof -
  let ?ms = "Find fl1 ''Not'' 0 ''And''"
  let ?b0 = "bypass_body ''AndNot'' 0 (\<lambda>u. u = 1) False"
  let ?b1 = "bypass_body ''AndNot'' 1 (\<lambda>u. u = 1) True"
  have lm: "live_matches fl1 ''Not'' 0 ''And'' ?ms" using d un by (rule live_matches_Find)
  have on: "outputs (op_at fl1 logneg) = [r]" using un p tn by (rule unary_outputs)
  have r0: "at (inputs (op_at fl1 logand)) 0 = Some r" using ia by (simp add: at_def)
  have "matches fl1 ''Not'' 0 ''And'' logand"
    using ta r0 p tn on by (simp add: matches_def at_def)
  with c have c0: "logand \<in> set ?ms" by (simp add: Find_def)
  from count_le_usages [OF c, of r] u ia have yr: "y \<noteq> r" by (auto split: if_splits)
  from bypass_pass_target [where T = "''AndNot''" and ok = "\<lambda>u. u = 1" and sw = False and n = n1,
      OF _ _ _ _ lm c0 r0 p ineg]
  obtain fl2 n2 where run0: "for_each ?b0 ?ms (fl1, n1) = Some (fl2, n2)"
    and res: "logand \<in> set (ops fl2)" "n1 < n2" "logneg \<notin> set (ops fl2)"
      "op_at fl2 logand = (op_at fl1 logand)\<lparr>op_type := ''AndNot'',
         inputs := swapped False (map (\<lambda>v. if v = r then x else v) (inputs (op_at fl1 logand)))\<rparr>"
    using u o by auto
  from bypass_pass_basic [where T = "''AndNot''" and ok = "\<lambda>u. u = 1" and sw = False and n = n1,
      OF _ _ _ _ lm] run0
  have d2: "distinct (ops fl2)" and un2: "unary fl2 ''Not''" by auto
  let ?ms2 = "Find fl2 ''Not'' 1 ''And''"
  have lm2: "live_matches fl2 ''Not'' 1 ''And'' ?ms2" using d2 un2 by (rule live_matches_Find)
  have t2: "op_type (op_at fl2 logand) = ''AndNot''" using res(4) by simp
  then have notin: "logand \<notin> set ?ms2" by (simp add: Find_def matches_def)
  from bypass_pass_unchanged [where T = "''AndNot''" and ok = "\<lambda>u. u = 1" and sw = True and n = n2
      and ?c0.0 = logand, OF _ _ _ _ lm2 res(1)] t2 notin
  obtain fl3 n3 where run1: "for_each ?b1 ?ms2 (fl2, n2) = Some (fl3, n3)"
    and res3: "logand \<in> set (ops fl3)" "op_at fl3 logand = op_at fl2 logand"
    by auto
  from bypass_pass_basic [where T = "''AndNot''" and ok = "\<lambda>u. u = 1" and sw = True and n = n2,
      OF _ _ _ _ lm2] run1
  have sub: "set (ops fl3) \<subseteq> set (ops fl2)" and n23: "n2 \<le> n3" by auto
  from run0 run1 have "merge_negations (fl1, n1) = Some (fl3, n3)"
    by (simp add: merge_negations_def AndNot0_body_bypass AndNot1_body_bypass)
  moreover from res(2) n23 have "0 < n3" by simp
  moreover from res(3) sub have "logneg \<notin> set (ops fl3)" by auto
  ultimately show ?thesis using res3 res(4) ia yr by (simp add: swapped_def)
qed

lemma merge_negations_second:
  assumes d: "distinct (ops fl1)" and un: "unary fl1 ''Not''"
    and c: "logand \<in> set (ops fl1)" and ta: "op_type (op_at fl1 logand) = ''And''"
    and ia: "inputs (op_at fl1 logand) = [y, r]"
    and p: "producer fl1 r = Some logneg" and tn: "op_type (op_at fl1 logneg) = ''Not''"
    and ineg: "inputs (op_at fl1 logneg) = [x]"
    and u: "usages fl1 r = 1" and o: "\<not> out fl1 r"
    and other: "\<not> (\<exists>q. producer fl1 y = Some q \<and> op_type (op_at fl1 q) = ''Not'' \<and>
                       usages fl1 y = 1 \<and> \<not> out fl1 y)"
  shows "\<exists>fl' n'. merge_negations (fl1, n1) = Some (fl', n') \<and> 0 < n' \<and>
      logneg \<notin> set (ops fl') \<and> logand \<in> set (ops fl') \<and>
      op_type (op_at fl' logand) = ''AndNot'' \<and> inputs (op_at fl' logand) = [x, y]"
proof -
  let ?ms = "Find fl1 ''Not'' 0 ''And''"
  let ?b0 = "bypass_body ''AndNot'' 0 (\<lambda>u. u = 1) False"
  let ?b1 = "bypass_body ''AndNot'' 1 (\<lambda>u. u = 1) True"
  have lm: "live_matches fl1 ''Not'' 0 ''And'' ?ms" using d un by (rule live_matches_Find)
  have nrem: "\<exists>v. at (inputs (op_at fl1 logand)) 0 = Some v \<and> \<not> (usages fl1 v = 1 \<and> \<not> out fl1 v)"
    if "logand \<in> set ?ms"
  proof -
    from that have "matches fl1 ''Not'' 0 ''And'' logand" by (simp add: Find_def)
    with ia obtain q where "producer fl1 y = Some q" "op_type (op_at fl1 q) = ''Not''"
      by (auto simp: matches_def at_def split: option.splits)
    with other have "\<not> (usages fl1 y = 1 \<and> \<not> out fl1 y)" by blast
    with ia show ?thesis by (simp add: at_def)
  qed
  from bypass_pass_unchanged [where T = "''AndNot''" and ok = "\<lambda>u. u = 1" and sw = False and n = n1
      and ?c0.0 = logand, OF _ _ _ _ lm c _ nrem] ta
  obtain fl2 n2 where run0: "for_each ?b0 ?ms (fl1, n1) = Some (fl2, n2)"
    and res: "logand \<in> set (ops fl2)" "op_at fl2 logand = op_at fl1 logand"
      "\<And>v. v \<in> set (inputs (op_at fl1 logand)) \<Longrightarrow>
         usages fl2 v = usages fl1 v \<and> producer fl2 v = producer fl1 v \<and>
         (\<forall>q. producer fl1 v = Some q \<and> op_type (op_at fl1 q) = ''Not'' \<longrightarrow> op_at fl2 q = op_at fl1 q)"
    by auto
  from bypass_pass_basic [where T = "''AndNot''" and ok = "\<lambda>u. u = 1" and sw = False and n = n1,
      OF _ _ _ _ lm] run0
  have d2: "distinct (ops fl2)" and un2: "unary fl2 ''Not''" and va: "var_at fl2 = var_at fl1"
    by auto
  from res(3) [of r] ia p tn have u2: "usages fl2 r = usages fl1 r"
    and p2: "producer fl2 r = Some logneg" and n2: "op_at fl2 logneg = op_at fl1 logneg"
    by auto
  let ?ms2 = "Find fl2 ''Not'' 1 ''And''"
  have lm2: "live_matches fl2 ''Not'' 1 ''And'' ?ms2" using d2 un2 by (rule live_matches_Find)
  have tn2: "op_type (op_at fl2 logneg) = ''Not''" using n2 tn by simp
  have on2: "outputs (op_at fl2 logneg) = [r]" using un2 p2 tn2 by (rule unary_outputs)
  have r1: "at (inputs (op_at fl2 logand)) 1 = Some r" using ia res(2) by (simp add: at_def)
  have "matches fl2 ''Not'' 1 ''And'' logand"
    using ta res(2) r1 p2 tn2 on2 by (simp add: matches_def at_def)
  with res(1) have c2: "logand \<in> set ?ms2" by (simp add: Find_def)
  have ineg2: "inputs (op_at fl2 logneg) = [x]" using n2 ineg by simp
  from count_le_usages [OF c, of r] u ia have yr: "y \<noteq> r" by (auto split: if_splits)
  from bypass_pass_target [where T = "''AndNot''" and ok = "\<lambda>u. u = 1" and sw = True and n = n2,
      OF _ _ _ _ lm2 c2 r1 p2 ineg2]
  obtain fl3 n3 where run1: "for_each ?b1 ?ms2 (fl2, n2) = Some (fl3, n3)"
    and res3: "logand \<in> set (ops fl3)" "n2 < n3" "logneg \<notin> set (ops fl3)"
      "op_at fl3 logand = (op_at fl2 logand)\<lparr>op_type := ''AndNot'',
         inputs := swapped True (map (\<lambda>v. if v = r then x else v) (inputs (op_at fl2 logand)))\<rparr>"
    using u o u2 va by (auto simp: out_def)
  from run0 run1 have "merge_negations (fl1, n1) = Some (fl3, n3)"
    by (simp add: merge_negations_def AndNot0_body_bypass AndNot1_body_bypass)
  moreover from res3(2) have "0 < n3" by simp
  ultimately show ?thesis using res3 res(2) ia yr by (simp add: swapped_def)
qed


lemma fold_negation_idle:
  assumes "\<not> foldable fl p"
  shows "fold_negation fl p = Some (False, fl)"
proof (cases "op_type (op_at fl p) \<noteq> ''Not'' \<or> indegree fl p \<noteq> 1")
  case True
  then show ?thesis by (auto simp: fold_negation_def)
next
  case n: False
  show ?thesis
  proof (cases "producer fl (inputs (op_at fl p) ! 0)")
    case None
    with n show ?thesis by (simp add: fold_negation_def)
  next
    case (Some q)
    from producer_SomeD [OF Some] have "outputs (op_at fl q) \<noteq> []" by auto
    then have o: "at (outputs (op_at fl q)) 0 = Some (outputs (op_at fl q) ! 0)"
      by (simp add: at_def)
    from assms n Some have nn: "op_type (op_at fl q) \<noteq> ''Not''"
      and cmp: "op_type (op_at fl q) \<in> set comparisons \<Longrightarrow>
        \<not> (usages fl (outputs (op_at fl q) ! 0) = 1 \<and> \<not> out fl (outputs (op_at fl q) ! 0))"
      by (auto simp: foldable_def)
    have f: "FoldNotCompare fl q p t = Some (False, fl)"
      if "op_type (op_at fl q) \<in> set comparisons" for t
      using cmp [OF that] o by (auto simp: FoldNotCompare_def)
    show ?thesis
      using n Some nn f by (simp add: fold_negation_def Let_def comparisons_def)
  qed
qed

lemma fold_scan_idle:
  "\<forall>p\<in>set ps. \<not> foldable fl p \<Longrightarrow> fold_scan fl ps = Some (False, fl)"
  by (induction ps) (simp_all add: fold_negation_idle)

lemma fold_negations_idle:
  "\<forall>p\<in>set (ops fl). \<not> foldable fl p \<Longrightarrow> fold_negations fl n = Some (fl, n)"
  by (subst fold_negations.simps) (simp add: fold_scan_idle)

lemma AndNot_after_folding:
  assumes f: "fold_negations fl 0 = Some (fl1, n1)"
    and d: "distinct (ops fl1)" and un: "unary fl1 ''Not''"
    and c: "logand \<in> set (ops fl1)" and ta: "op_type (op_at fl1 logand) = ''And''"
    and p: "producer fl1 r = Some logneg" and tn: "op_type (op_at fl1 logneg) = ''Not''"
    and ineg: "inputs (op_at fl1 logneg) = [x]"
    and u: "usages fl1 r = 1" and o: "\<not> out fl1 r"
    and ia: "inputs (op_at fl1 logand) = [r, y] \<or>
             inputs (op_at fl1 logand) = [y, r] \<and>
             \<not> (\<exists>q. producer fl1 y = Some q \<and> op_type (op_at fl1 q) = ''Not'' \<and>
                    usages fl1 y = 1 \<and> \<not> out fl1 y)"
  shows "\<exists>fl'. LogicTransformer fl = Some (fl', True) \<and>
      logneg \<notin> set (ops fl') \<and> logand \<in> set (ops fl') \<and>
      op_type (op_at fl' logand) = ''AndNot'' \<and> inputs (op_at fl' logand) = [x, y]"
proof -
  have "\<exists>fl' n'. merge_negations (fl1, n1) = Some (fl', n') \<and> 0 < n' \<and>
      logneg \<notin> set (ops fl') \<and> logand \<in> set (ops fl') \<and>
      op_type (op_at fl' logand) = ''AndNot'' \<and> inputs (op_at fl' logand) = [x, y]"
    using ia
  proof
    assume "inputs (op_at fl1 logand) = [r, y]"
    with d un c ta show ?thesis using p tn ineg u o by (rule merge_negations_first)
  next
    assume a: "inputs (op_at fl1 logand) = [y, r] \<and>
             \<not> (\<exists>q. producer fl1 y = Some q \<and> op_type (op_at fl1 q) = ''Not'' \<and>
                    usages fl1 y = 1 \<and> \<not> out fl1 y)"
    then have 1: "inputs (op_at fl1 logand) = [y, r]" and 2: "\<not> (\<exists>q. producer fl1 y = Some q \<and> op_type (op_at fl1 q) = ''Not'' \<and>
                    usages fl1 y = 1 \<and> \<not> out fl1 y)" by simp_all
    from d un c ta 1 p tn ineg u o 2 show ?thesis by (rule merge_negations_second)
  qed
  then obtain fl' n' where "merge_negations (fl1, n1) = Some (fl', n')" "0 < n'"
      "logneg \<notin> set (ops fl')" "logand \<in> set (ops fl')"
      "op_type (op_at fl' logand) = ''AndNot''" "inputs (op_at fl' logand) = [x, y]" by blast
  with f show ?thesis by (simp add: LogicTransformer_def)
qed

text \<open>
  C3, as amended. Let \<open>fl\<close> be the flow given to \<open>LogicTransformer\<close>, with distinct operations
  and unary \<open>Not\<close> operations, in which the loop that folds negations has nothing to fold: no
  live \<open>Not\<close> reads the output of another \<open>Not\<close>, or the output of a comparison that has one
  usage and is not a flow output. Let a live \<open>And\<close> have the two inputs \<open>r\<close> and \<open>y\<close>, where \<open>r\<close>
  is the output of \<open>Not(x)\<close>, has one usage and is not a flow output; when \<open>r\<close> is input 1,
  input 0 is not itself the output of such a \<open>Not\<close>. Then \<open>LogicTransformer\<close> returns with a
  change, the \<open>Not\<close> has left the flow, and the \<open>And\<close> is \<open>AndNot\<close> with the inputs \<open>(x, y)\<close>:
  the negated operand first.
\<close>

theorem LogicTransformer_AndNot:
  assumes nf: "\<forall>p\<in>set (ops fl). \<not> foldable fl p"
    and d: "distinct (ops fl)" and un: "unary fl ''Not''"
    and c: "logand \<in> set (ops fl)" and ta: "op_type (op_at fl logand) = ''And''"
    and p: "producer fl r = Some logneg" and tn: "op_type (op_at fl logneg) = ''Not''"
    and ineg: "inputs (op_at fl logneg) = [x]"
    and u: "usages fl r = 1" and o: "\<not> out fl r"
    and ia: "inputs (op_at fl logand) = [r, y] \<or>
             inputs (op_at fl logand) = [y, r] \<and>
             \<not> (\<exists>q. producer fl y = Some q \<and> op_type (op_at fl q) = ''Not'' \<and>
                    usages fl y = 1 \<and> \<not> out fl y)"
  shows "\<exists>fl'. LogicTransformer fl = Some (fl', True) \<and>
      logneg \<notin> set (ops fl') \<and> logand \<in> set (ops fl') \<and>
      op_type (op_at fl' logand) = ''AndNot'' \<and> inputs (op_at fl' logand) = [x, y]"
  using fold_negations_idle [OF nf, of 0] d un c ta p tn ineg u o ia
  by (rule AndNot_after_folding)

lemma and_not_flow_fold: "fold_negations (and_not_flow b) 0 = Some (and_not_flow b, 0)"
  by (subst fold_negations.simps)
    (simp add: fold_negation_def and_not_flow_def example_op_def indegree_def producer_def)

theorem LogicTransformer_AndNot_witness:
  "ops (and_not_flow True) = [0, 1] \<and> ops (and_not_flow False) = [0, 1] \<and>
   \<not> foldable (and_not_flow True) 0 \<and> \<not> foldable (and_not_flow True) 1 \<and>
   \<not> foldable (and_not_flow False) 0 \<and> \<not> foldable (and_not_flow False) 1 \<and>
   (\<exists>fl'. LogicTransformer (and_not_flow True) = Some (fl', True) \<and>
      0 \<notin> set (ops fl') \<and> 1 \<in> set (ops fl') \<and>
      op_type (op_at fl' 1) = ''AndNot'' \<and> inputs (op_at fl' 1) = [0, 2]) \<and>
   (\<exists>fl'. LogicTransformer (and_not_flow False) = Some (fl', True) \<and>
      0 \<notin> set (ops fl') \<and> 1 \<in> set (ops fl') \<and>
      op_type (op_at fl' 1) = ''AndNot'' \<and> inputs (op_at fl' 1) = [0, 2])"
proof -
  have nf: "\<forall>p\<in>set (ops (and_not_flow b)). \<not> foldable (and_not_flow b) p" for b
    by (simp add: foldable_def and_not_flow_def example_op_def indegree_def producer_def)
  have w: "\<exists>fl'. LogicTransformer (and_not_flow b) = Some (fl', True) \<and>
      0 \<notin> set (ops fl') \<and> 1 \<in> set (ops fl') \<and>
      op_type (op_at fl' 1) = ''AndNot'' \<and> inputs (op_at fl' 1) = [0, 2]" for b
  proof -
    let ?fl = "and_not_flow b"
    have d: "distinct (ops ?fl)" by (simp add: and_not_flow_def)
    have un: "unary ?fl ''Not''" by (simp add: unary_def and_not_flow_def example_op_def)
    have c: "1 \<in> set (ops ?fl)" by (simp add: and_not_flow_def)
    have ta: "op_type (op_at ?fl 1) = ''And''" by (simp add: and_not_flow_def example_op_def)
    have p: "producer ?fl 1 = Some 0" by (simp add: producer_def and_not_flow_def example_op_def)
    have tn: "op_type (op_at ?fl 0) = ''Not''" by (simp add: and_not_flow_def example_op_def)
    have ineg: "inputs (op_at ?fl 0) = [0]" by (simp add: and_not_flow_def example_op_def)
    have u: "usages ?fl 1 = 1"
      by (simp add: usages_def consumers_def and_not_flow_def example_op_def)
    have o: "\<not> out ?fl 1" by (simp add: out_def and_not_flow_def example_var_def)
    have ia: "inputs (op_at ?fl 1) = [1, 2] \<or>
             inputs (op_at ?fl 1) = [2, 1] \<and>
             \<not> (\<exists>q. producer ?fl 2 = Some q \<and> op_type (op_at ?fl q) = ''Not'' \<and>
                    usages ?fl 2 = 1 \<and> \<not> out ?fl 2)"
      by (simp add: producer_def and_not_flow_def example_op_def)
    from nf d un c ta p tn ineg u o ia show ?thesis
      by (rule LogicTransformer_AndNot)
  qed
  have o: "ops (and_not_flow b) = [0, 1]" for b by (simp add: and_not_flow_def)
  from nf [of True] nf [of False] w [of True] w [of False] o [of True] o [of False]
  show ?thesis by simp
qed

text \<open>
  C3 as stated puts the operand that is not negated first. For \<open>And(Not(x), y)\<close> with \<open>x = 0\<close>
  and \<open>y = 2\<close> the transformer yields \<open>AndNot\<close> with the inputs \<open>(x, y)\<close>, not \<open>(y, x)\<close>.
\<close>

theorem AndNot_order_counterexample:
  "op_type (op_at (and_not_flow True) 1) = ''And'' \<and>
   inputs (op_at (and_not_flow True) 1) = [1, 2] \<and>
   producer (and_not_flow True) 1 = Some 0 \<and>
   op_type (op_at (and_not_flow True) 0) = ''Not'' \<and>
   inputs (op_at (and_not_flow True) 0) = [0] \<and>
   consumers (and_not_flow True) 1 = [1] \<and> \<not> out (and_not_flow True) 1 \<and>
   (\<exists>fl'. LogicTransformer (and_not_flow True) = Some (fl', True) \<and>
      op_type (op_at fl' 1) = ''AndNot'' \<and> inputs (op_at fl' 1) = [0, 2] \<and>
      inputs (op_at fl' 1) \<noteq> [2, 0])"
  unfolding LogicTransformer_def and_not_flow_fold
  by (simp add: merge_negations_def
      AndNot0_body_def AndNot1_body_def Find_def matches_def at_def
      producer_def usages_def consumers_def out_def Eliminate_def RemoveOperation_def
      set_type_def redirect_def and_not_flow_def example_op_def example_var_def)

lemma for_each_rule:
  assumes "I xs s"
    and "\<And>x rest s. I (x # rest) s \<Longrightarrow> \<exists>s'. f s x = Some s' \<and> I rest s'"
  shows "\<exists>s'. for_each f xs s = Some s' \<and> I [] s'"
  using assms(1)
proof (induction xs arbitrary: s)
  case Nil
  then show ?case by simp
next
  case (Cons x xs)
  from assms(2) [OF Cons.prems] obtain s' where "f s x = Some s'" "I xs s'" by blast
  with Cons.IH [of s'] show ?case by simp
qed

lemma four_bytes:
  fixes n :: nat
  assumes lt: "n < 4294967296"
  shows "n mod 256 + 256 * (n div 256 mod 256) + 65536 * (n div 65536 mod 256)
        + 16777216 * (n div 16777216 mod 256) = n"
proof -
  define q1 where "q1 = n div 256"
  define q2 where "q2 = q1 div 256"
  define q3 where "q3 = q2 div 256"
  have a: "n = n mod 256 + 256 * q1" by (simp add: q1_def)
  have b: "q1 = q1 mod 256 + 256 * q2" by (simp add: q2_def)
  have c: "q2 = q2 mod 256 + 256 * q3" by (simp add: q3_def)
  have e2: "n div 65536 = q2" by (simp add: q2_def q1_def div_mult2_eq)
  have e3: "n div 16777216 = q3" by (simp add: q3_def q2_def q1_def div_mult2_eq)
  from lt have "q3 < 256" unfolding e3 [symmetric] by (simp add: less_mult_imp_div_less)
  then have d: "q3 mod 256 = q3" by simp
  show ?thesis unfolding e2 e3 d q1_def [symmetric] using a b c by linarith
qed

lemma bytes_roundtrip: "float_of_bytes (bytes_of_float w) = Some w"
proof -
  have lt: "unat w < 4294967296" using unsigned_less [of w, where ?'a = nat] by simp
  have b: "unat (of_nat (k mod 256) :: 8 word) = k mod 256" for k :: nat
    by (simp add: unat_of_nat)
  have "float_of_bytes (bytes_of_float w) =
      Some (of_nat (unat w mod 256 + 256 * (unat w div 256 mod 256)
        + 65536 * (unat w div 65536 mod 256) + 16777216 * (unat w div 16777216 mod 256)))"
    unfolding float_of_bytes_def bytes_of_float_def by (simp only: list.case b)
  also have "\<dots> = Some (of_nat (unat w))" by (simp only: four_bytes [OF lt])
  also have "\<dots> = Some w" by simp
  finally show ?thesis .
qed

lemma DivToMul_body_cases:
  assumes fc: "float_constants_ok fl"
  shows "DivToMul_body rc (fl, n) p = Some (fl, n) \<or>
    (\<exists>x c val. (op_type (op_at fl p) = ''Div'' \<or> op_type (op_at fl p) = ''RealDiv'') \<and>
       inputs (op_at fl p) = [x, c] \<and> v_type (var_at fl c) = DT_FLOAT \<and>
       elements (v_shape (var_at fl c)) = 1 \<and> is_constant fl c \<and> usages fl c = 1 \<and>
       read_float fl c = Some val \<and>
       DivToMul_body rc (fl, n) p = Some (mul_result rc fl p c val, n + 1)) \<or>
    (\<exists>x y. (op_type (op_at fl p) = ''Div'' \<or> op_type (op_at fl p) = ''RealDiv'') \<and>
       inputs (op_at fl p) = [x, y] \<and>
       \<not> (v_type (var_at fl y) = DT_FLOAT \<and> elements (v_shape (var_at fl y)) = 1 \<and>
          is_constant fl y \<and> usages fl y = 1) \<and>
       DivToMul_body rc (fl, n) p = Some (rcp_result fl p x, n + 1))"
proof (cases "(op_type (op_at fl p) = ''Div'' \<or> op_type (op_at fl p) = ''RealDiv'') \<and>
    length (inputs (op_at fl p)) = 2")
  case False
  then show ?thesis by (auto simp: DivToMul_body_def indegree_def)
next
  case True
  then obtain x c where ins: "inputs (op_at fl p) = [x, c]"
    by (cases "inputs (op_at fl p)") (auto simp: length_Suc_conv)
  show ?thesis
  proof (cases "v_type (var_at fl c) = DT_FLOAT \<and> elements (v_shape (var_at fl c)) = 1 \<and>
      is_constant fl c \<and> usages fl c = 1")
    case mul: True
    with fc have sz: "v_size (var_at fl c) = 4" and "read_float fl c \<noteq> None"
      by (auto simp: float_constants_ok_def)
    then obtain val where val: "read_float fl c = Some val" by auto
    have "DivToMul_body rc (fl, n) p = Some (mul_result rc fl p c val, n + 1)"
      using True ins mul sz val
      by (simp add: DivToMul_body_def indegree_def AllocateMemory_def write_float_def set_data_def
          set_type_def mul_result_def)
    with True ins mul val show ?thesis by blast
  next
    case nomul: False
    have "DivToMul_body rc (fl, n) p = Some (fl, n) \<or>
        DivToMul_body rc (fl, n) p = Some (rcp_result fl p x, n + 1)"
      using True ins nomul
      by (auto simp: DivToMul_body_def indegree_def RemoveInput_def set_type_def rcp_result_def
          split: option.splits)
    with True ins nomul show ?thesis by blast
  qed
qed

lemma inputs_mul_result: "inputs (op_at (mul_result rc fl p c val) t) = inputs (op_at fl t)"
  by (simp add: mul_result_def)

lemma usages_mul_result: "usages (mul_result rc fl p c val) v = usages fl v"
proof -
  have "ops (mul_result rc fl p c val) = ops fl" by (simp add: mul_result_def)
  then show ?thesis by (simp add: usages_sum inputs_mul_result)
qed

lemma read_float_same:
  "var_at fl' = var_at fl \<Longrightarrow> blocks fl' = blocks fl \<Longrightarrow> read_float fl' v = read_float fl v"
  by (simp add: read_float_def split: option.splits)

lemma read_float_append:
  "read_float fl v \<noteq> None \<Longrightarrow> v_data (var_at fl' v) = v_data (var_at fl v) \<Longrightarrow>
   blocks fl' = blocks fl @ bs \<Longrightarrow> read_float fl' v = read_float fl v"
  by (auto simp: read_float_def at_def nth_append split: option.splits if_splits)

lemma float_constants_ok_mul_result:
  assumes fc: "float_constants_ok fl" and c: "v_type (var_at fl c) = DT_FLOAT"
    "elements (v_shape (var_at fl c)) = 1" "is_constant fl c"
  shows "float_constants_ok (mul_result rc fl p c val)"
  unfolding float_constants_ok_def
proof (intro allI impI)
  let ?fl' = "mul_result rc fl p c val"
  fix v
  assume a: "v_type (var_at ?fl' v) = DT_FLOAT \<and> elements (v_shape (var_at ?fl' v)) = 1 \<and>
          is_constant ?fl' v"
  show "v_size (var_at ?fl' v) = 4 \<and> read_float ?fl' v \<noteq> None"
  proof (cases "v = c")
    case True
    from fc c have "v_size (var_at fl c) = 4" by (simp add: float_constants_ok_def)
    then show ?thesis using True
      by (simp add: mul_result_def read_float_def at_def bytes_roundtrip)
  next
    case False
    with a have "v_type (var_at fl v) = DT_FLOAT \<and> elements (v_shape (var_at fl v)) = 1 \<and>
          is_constant fl v" by (simp add: mul_result_def is_constant_def)
    with fc have 1: "v_size (var_at fl v) = 4" and 2: "read_float fl v \<noteq> None"
      by (simp_all add: float_constants_ok_def)
    have "read_float ?fl' v = read_float fl v"
      using 2 by (rule read_float_append [where bs = "[bytes_of_float (rc val)]"])
        (simp_all add: mul_result_def False)
    with 1 2 False show ?thesis by (simp add: mul_result_def)
  qed
qed

lemma float_constants_ok_rcp_result:
  "float_constants_ok fl \<Longrightarrow> float_constants_ok (rcp_result fl p x)"
proof -
  have "read_float (rcp_result fl p x) v = read_float fl v" for v
    by (rule read_float_same) (simp_all add: rcp_result_def)
  moreover have "var_at (rcp_result fl p x) = var_at fl" by (simp add: rcp_result_def)
  moreover assume "float_constants_ok fl"
  ultimately show ?thesis by (simp add: float_constants_ok_def is_constant_def)
qed

lemma DivToMul_body_mul:
  assumes "op_type (op_at fl p) = ''Div'' \<or> op_type (op_at fl p) = ''RealDiv''"
    and "inputs (op_at fl p) = [x, c]" and "v_type (var_at fl c) = DT_FLOAT"
    and "elements (v_shape (var_at fl c)) = 1" and "is_constant fl c" and "usages fl c = 1"
    and "v_size (var_at fl c) = 4" and "read_float fl c = Some val"
  shows "DivToMul_body rc (fl, n) p = Some (mul_result rc fl p c val, n + 1)"
  using assms
  by (auto simp: DivToMul_body_def indegree_def AllocateMemory_def write_float_def set_data_def
      set_type_def mul_result_def)

lemma usages_rcp_result:
  assumes "v \<notin> set (inputs (op_at fl p))"
  shows "usages (rcp_result fl p x) v = usages fl v"
proof -
  have "v \<notin> set (remove1 x (inputs (op_at fl p)))"
    using assms notin_set_remove1 by fast
  with assms have "count_list (inputs (op_at (rcp_result fl p x) t)) v
      = count_list (inputs (op_at fl t)) v" for t
    by (simp add: rcp_result_def)
  moreover have "ops (rcp_result fl p x) = ops fl" by (simp add: rcp_result_def)
  ultimately show ?thesis by (simp add: usages_sum)
qed

lemma DivToMul_loop:
  assumes d: "distinct (ops fl)" and fc: "float_constants_ok fl"
    and din: "dv \<in> set (ops fl)"
    and ty: "op_type (op_at fl dv) = ''Div'' \<or> op_type (op_at fl dv) = ''RealDiv''"
    and ins: "inputs (op_at fl dv) = [x, c]"
    and cf: "v_type (var_at fl c) = DT_FLOAT" and ce: "elements (v_shape (var_at fl c)) = 1"
    and cc: "is_constant fl c" and cu: "usages fl c = 1"
  shows "\<exists>fl1 n1 buffer val. for_each (DivToMul_body rc) (ops fl) (fl, 0) = Some (fl1, n1) \<and>
      0 < n1 \<and> ops fl1 = ops fl \<and>
      (\<forall>t. op_type (op_at fl1 t) = ''Sqrt'' \<longrightarrow> op_at fl1 t = op_at fl t) \<and>
      op_at fl1 dv = (op_at fl dv)\<lparr>op_type := ''Mul''\<rparr> \<and> read_float fl c = Some val \<and>
      length (blocks fl) \<le> buffer \<and> buffer < length (blocks fl1) \<and>
      blocks fl1 ! buffer = bytes_of_float (rc val) \<and>
      var_at fl1 c = (var_at fl c)\<lparr>v_data := Some buffer\<rparr> \<and>
      (\<forall>a < length (blocks fl). blocks fl1 ! a = blocks fl ! a)"
proof -
  from fc cf ce cc obtain val where val: "read_float fl c = Some val"
    by (auto simp: float_constants_ok_def)
  define Done where "Done = (\<lambda>(fl1::Flow) (n1::nat). 0 < n1 \<and>
      op_at fl1 dv = (op_at fl dv)\<lparr>op_type := ''Mul''\<rparr> \<and>
      (\<exists>buffer. length (blocks fl) \<le> buffer \<and> buffer < length (blocks fl1) \<and>
         blocks fl1 ! buffer = bytes_of_float (rc val) \<and>
         var_at fl1 c = (var_at fl c)\<lparr>v_data := Some buffer\<rparr>))"
  define Pend where "Pend = (\<lambda>fl1::Flow. op_at fl1 dv = op_at fl dv \<and> var_at fl1 c = var_at fl c \<and>
      read_float fl1 c = Some val)"
  define G where "G = (\<lambda>fl1::Flow. ops fl1 = ops fl \<and> float_constants_ok fl1 \<and>
      length (blocks fl) \<le> length (blocks fl1) \<and>
      (\<forall>a < length (blocks fl). blocks fl1 ! a = blocks fl ! a) \<and>
      (\<forall>t. op_type (op_at fl1 t) = ''Sqrt'' \<longrightarrow> op_at fl1 t = op_at fl t) \<and>
      usages fl1 c = 1 \<and> inputs (op_at fl1 dv) = [x, c] \<and>
      v_type (var_at fl1 c) = DT_FLOAT \<and> elements (v_shape (var_at fl1 c)) = 1 \<and>
      is_constant fl1 c)"
  define I where "I = (\<lambda>(rest::op_ptr list) (s::Flow \<times> nat). distinct rest \<and>
      set rest \<subseteq> set (ops fl) \<and> G (fst s) \<and>
      (if dv \<in> set rest then Pend (fst s) else Done (fst s) (snd s)))"
  have I0: "I (ops fl) (fl, 0)"
    using d fc din ins cf ce cc cu val by (simp add: I_def G_def Pend_def)
  have step: "\<exists>s'. DivToMul_body rc s p = Some s' \<and> I rest s'"
    if inv: "I (p # rest) s" for p rest s
  proof -
    obtain fl1 n1 where s: "s = (fl1, n1)" by (cases s)
    from inv s have dr: "distinct rest" and pr: "p \<notin> set rest" and pin: "p \<in> set (ops fl)"
      and sub: "set rest \<subseteq> set (ops fl)" and G1: "G fl1"
      and st: "if dv \<in> set (p # rest) then Pend fl1 else Done fl1 n1"
      by (auto simp: I_def split: if_splits)
    from G1 have o1: "ops fl1 = ops fl" and fc1: "float_constants_ok fl1"
      and bl: "length (blocks fl) \<le> length (blocks fl1)"
      and old: "\<And>a. a < length (blocks fl) \<Longrightarrow> blocks fl1 ! a = blocks fl ! a"
      and sq: "\<And>t. op_type (op_at fl1 t) = ''Sqrt'' \<Longrightarrow> op_at fl1 t = op_at fl t"
      and u1: "usages fl1 c = 1" and i1: "inputs (op_at fl1 dv) = [x, c]"
      and c1: "v_type (var_at fl1 c) = DT_FLOAT" "elements (v_shape (var_at fl1 c)) = 1"
        "is_constant fl1 c"
      by (simp_all add: G_def)
    from fc1 c1 have sz: "v_size (var_at fl1 c) = 4" by (simp add: float_constants_ok_def)
    have d1: "distinct (ops fl1)" using d o1 by simp
    have dv1: "dv \<in> set (ops fl1)" using din o1 by simp
    have cin: "c \<in> set (inputs (op_at fl1 dv))" using i1 by simp
    have u1': "usages fl1 c \<le> 1" using u1 by simp
    have others: "c \<notin> set (inputs (op_at fl1 p))" if "p \<noteq> dv"
      using sole_consumer(2) [OF d1 dv1 cin u1', of p] pin o1 that by simp
    show ?thesis
    proof (cases "p = dv")
      case True
      with st have pe: "Pend fl1" by simp
      then have A: "op_at fl1 dv = op_at fl dv" and V: "var_at fl1 c = var_at fl c"
        and R: "read_float fl1 c = Some val" by (simp_all add: Pend_def)
      let ?fl2 = "mul_result rc fl1 dv c val"
      have run: "DivToMul_body rc (fl1, n1) dv = Some (?fl2, n1 + 1)"
        using ty A i1 c1 u1 sz R by (intro DivToMul_body_mul) simp_all
      have G2: "G ?fl2"
        unfolding G_def
      proof (intro conjI allI impI)
        show "ops ?fl2 = ops fl" using o1 by (simp add: mul_result_def)
        show "float_constants_ok ?fl2" using fc1 c1 by (rule float_constants_ok_mul_result)
        show "length (blocks fl) \<le> length (blocks ?fl2)" using bl by (simp add: mul_result_def)
        show "blocks ?fl2 ! a = blocks fl ! a" if "a < length (blocks fl)" for a
          using that bl old by (simp add: mul_result_def nth_append)
        show "op_at ?fl2 t = op_at fl t" if "op_type (op_at ?fl2 t) = ''Sqrt''" for t
          using that sq [of t] by (cases "t = dv") (simp_all add: mul_result_def)
        show "usages ?fl2 c = 1" using u1 by (simp add: usages_mul_result)
        show "inputs (op_at ?fl2 dv) = [x, c]" using i1 by (simp add: inputs_mul_result)
        show "v_type (var_at ?fl2 c) = DT_FLOAT" using c1 by (simp add: mul_result_def)
        show "elements (v_shape (var_at ?fl2 c)) = 1" using c1 by (simp add: mul_result_def)
        show "is_constant ?fl2 c" by (simp add: mul_result_def is_constant_def)
      qed
      have D2: "Done ?fl2 (n1 + 1)"
        unfolding Done_def
      proof (intro conjI exI [of _ "length (blocks fl1)"])
        show "0 < n1 + 1" by simp
        show "op_at ?fl2 dv = (op_at fl dv)\<lparr>op_type := ''Mul''\<rparr>" using A by (simp add: mul_result_def)
        show "length (blocks fl) \<le> length (blocks fl1)" by (rule bl)
        show "length (blocks fl1) < length (blocks ?fl2)" by (simp add: mul_result_def)
        show "blocks ?fl2 ! length (blocks fl1) = bytes_of_float (rc val)"
          by (simp add: mul_result_def)
        show "var_at ?fl2 c = (var_at fl c)\<lparr>v_data := Some (length (blocks fl1))\<rparr>"
          using V by (simp add: mul_result_def)
      qed
      from True pr have "dv \<notin> set rest" by simp
      with G2 D2 dr sub have "I rest (?fl2, n1 + 1)" by (auto simp: I_def split: if_splits)
      with run s True show ?thesis by simp
    next
      case ne: False
      note oth = others [OF ne]
      from DivToMul_body_cases [OF fc1, of rc n1 p]
      consider (keep) "DivToMul_body rc (fl1, n1) p = Some (fl1, n1)"
        | (mul) x' c' val' where "inputs (op_at fl1 p) = [x', c']"
            "v_type (var_at fl1 c') = DT_FLOAT" "elements (v_shape (var_at fl1 c')) = 1"
            "is_constant fl1 c'" "read_float fl1 c' = Some val'"
            "DivToMul_body rc (fl1, n1) p = Some (mul_result rc fl1 p c' val', n1 + 1)"
        | (rcp) x' y' where "inputs (op_at fl1 p) = [x', y']"
            "DivToMul_body rc (fl1, n1) p = Some (rcp_result fl1 p x', n1 + 1)"
        by blast
      then show ?thesis
      proof cases
        case keep
        from st ne have "if dv \<in> set rest then Pend fl1 else Done fl1 n1" by simp
        with G1 dr sub have "I rest (fl1, n1)" by (auto simp: I_def split: if_splits)
        with keep s show ?thesis by simp
      next
        case mul
        from oth mul(1) have cne: "c \<noteq> c'" by auto
        let ?fl2 = "mul_result rc fl1 p c' val'"
        have G2: "G ?fl2"
          unfolding G_def
        proof (intro conjI allI impI)
          show "ops ?fl2 = ops fl" using o1 by (simp add: mul_result_def)
          show "float_constants_ok ?fl2" using fc1 mul(2,3,4) by (rule float_constants_ok_mul_result)
          show "length (blocks fl) \<le> length (blocks ?fl2)" using bl by (simp add: mul_result_def)
          show "blocks ?fl2 ! a = blocks fl ! a" if "a < length (blocks fl)" for a
            using that bl old by (simp add: mul_result_def nth_append)
          show "op_at ?fl2 t = op_at fl t" if "op_type (op_at ?fl2 t) = ''Sqrt''" for t
            using that sq [of t] by (cases "t = p") (simp_all add: mul_result_def)
          show "usages ?fl2 c = 1" using u1 by (simp add: usages_mul_result)
          show "inputs (op_at ?fl2 dv) = [x, c]" using i1 by (simp add: inputs_mul_result)
          show "v_type (var_at ?fl2 c) = DT_FLOAT" using c1 cne by (simp add: mul_result_def)
          show "elements (v_shape (var_at ?fl2 c)) = 1" using c1 cne by (simp add: mul_result_def)
          show "is_constant ?fl2 c" using c1 cne by (simp add: mul_result_def is_constant_def)
        qed
        have T2: "if dv \<in> set rest then Pend ?fl2 else Done ?fl2 (n1 + 1)"
        proof (cases "dv \<in> set rest")
          case True
          with st have pe: "Pend fl1" by simp
          then have R: "read_float fl1 c = Some val" by (simp add: Pend_def)
          then have "read_float fl1 c \<noteq> None" by simp
          then have "read_float ?fl2 c = read_float fl1 c"
            by (rule read_float_append [where bs = "[bytes_of_float (rc val')]"])
              (simp_all add: mul_result_def cne)
          with pe True ne cne show ?thesis by (simp add: Pend_def mul_result_def)
        next
          case False
          with st ne have "Done fl1 n1" by simp
          then obtain buffer where "0 < n1" "op_at fl1 dv = (op_at fl dv)\<lparr>op_type := ''Mul''\<rparr>"
            "length (blocks fl) \<le> buffer" "buffer < length (blocks fl1)"
            "blocks fl1 ! buffer = bytes_of_float (rc val)"
            "var_at fl1 c = (var_at fl c)\<lparr>v_data := Some buffer\<rparr>"
            by (auto simp: Done_def)
          then have "Done ?fl2 (n1 + 1)"
            unfolding Done_def using ne cne
            by (intro conjI exI [of _ buffer]) (simp_all add: mul_result_def nth_append)
          with False show ?thesis by simp
        qed
        from G2 T2 dr sub have "I rest (?fl2, n1 + 1)" by (auto simp: I_def split: if_splits)
        with mul(6) s show ?thesis by simp
      next
        case rcp
        let ?fl2 = "rcp_result fl1 p x'"
        have va: "var_at ?fl2 = var_at fl1" and bs: "blocks ?fl2 = blocks fl1"
          by (simp_all add: rcp_result_def)
        have opd: "op_at ?fl2 dv = op_at fl1 dv" using ne by (simp add: rcp_result_def)
        have G2: "G ?fl2"
          unfolding G_def
        proof (intro conjI allI impI)
          show "ops ?fl2 = ops fl" using o1 by (simp add: rcp_result_def)
          show "float_constants_ok ?fl2" using fc1 by (rule float_constants_ok_rcp_result)
          show "length (blocks fl) \<le> length (blocks ?fl2)" using bl bs by simp
          show "blocks ?fl2 ! a = blocks fl ! a" if "a < length (blocks fl)" for a
            using that old bs by simp
          show "op_at ?fl2 t = op_at fl t" if "op_type (op_at ?fl2 t) = ''Sqrt''" for t
            using that sq [of t] by (cases "t = p") (simp_all add: rcp_result_def)
          show "usages ?fl2 c = 1" using u1 oth by (simp add: usages_rcp_result)
          show "inputs (op_at ?fl2 dv) = [x, c]" using i1 opd by simp
          show "v_type (var_at ?fl2 c) = DT_FLOAT" using c1 va by simp
          show "elements (v_shape (var_at ?fl2 c)) = 1" using c1 va by simp
          show "is_constant ?fl2 c" using c1 va by (simp add: is_constant_def)
        qed
        have rf: "read_float ?fl2 c = read_float fl1 c" using va bs by (rule read_float_same)
        have T2: "if dv \<in> set rest then Pend ?fl2 else Done ?fl2 (n1 + 1)"
        proof (cases "dv \<in> set rest")
          case True
          with st have "Pend fl1" by simp
          with True opd va rf show ?thesis by (simp add: Pend_def)
        next
          case False
          with st ne have "Done fl1 n1" by simp
          with False opd va bs show ?thesis by (auto simp: Done_def)
        qed
        from G2 T2 dr sub have "I rest (?fl2, n1 + 1)" by (auto simp: I_def split: if_splits)
        with rcp(2) s show ?thesis by simp
      qed
    qed
  qed
  from for_each_rule [of I "ops fl" "(fl, 0)" "DivToMul_body rc", OF I0 step]
  obtain fl1 n1 where run: "for_each (DivToMul_body rc) (ops fl) (fl, 0) = Some (fl1, n1)"
    and fin: "I [] (fl1, n1)" by auto
  from fin have "G fl1" "Done fl1 n1" by (simp_all add: I_def)
  with run val show ?thesis unfolding G_def Done_def by blast
qed

text \<open>
  C4. In a flow with distinct operations, unary \<open>Sqrt\<close> operations and one-element float
  constants of four readable bytes, let \<open>Div(x, c)\<close> or \<open>RealDiv(x, c)\<close> be a live operation
  whose second input \<open>c\<close> is a one-element float constant with one usage. Then
  \<open>DivTransformer\<close> returns with a change; the operation has the type \<open>Mul\<close> and its inputs
  and outputs as before; the variable \<open>c\<close> is as before but for its data, which points at a
  block that the flow did not have, holding the four bytes of \<open>reciprocal\<close> of the old
  value, so that the constant now reads as that value; the old blocks are as they were.
\<close>

theorem DivTransformer_constant_divisor:
  assumes d: "distinct (ops fl)" and un: "unary fl ''Sqrt''" and fc: "float_constants_ok fl"
    and din: "dv \<in> set (ops fl)"
    and ty: "op_type (op_at fl dv) = ''Div'' \<or> op_type (op_at fl dv) = ''RealDiv''"
    and ins: "inputs (op_at fl dv) = [x, c]"
    and cf: "v_type (var_at fl c) = DT_FLOAT" and ce: "elements (v_shape (var_at fl c)) = 1"
    and cc: "is_constant fl c" and cu: "usages fl c = 1"
  shows "\<exists>fl' buffer val. DivTransformer reciprocal fl = Some (fl', True) \<and>
      dv \<in> set (ops fl') \<and> op_at fl' dv = (op_at fl dv)\<lparr>op_type := ''Mul''\<rparr> \<and>
      read_float fl c = Some val \<and>
      length (blocks fl) \<le> buffer \<and> buffer < length (blocks fl') \<and>
      blocks fl' ! buffer = bytes_of_float (reciprocal val) \<and>
      read_float fl' c = Some (reciprocal val) \<and>
      var_at fl' c = (var_at fl c)\<lparr>v_data := Some buffer\<rparr> \<and>
      (\<forall>a < length (blocks fl). blocks fl' ! a = blocks fl ! a)"
proof -
  from DivToMul_loop [OF d fc din ty ins cf ce cc cu, of reciprocal]
  obtain fl1 n1 buffer val
    where run1: "for_each (DivToMul_body reciprocal) (ops fl) (fl, 0) = Some (fl1, n1)"
      and n1: "0 < n1" and o1: "ops fl1 = ops fl"
      and sq: "\<And>t. op_type (op_at fl1 t) = ''Sqrt'' \<Longrightarrow> op_at fl1 t = op_at fl t"
      and A: "op_at fl1 dv = (op_at fl dv)\<lparr>op_type := ''Mul''\<rparr>"
      and val: "read_float fl c = Some val"
      and buf: "length (blocks fl) \<le> buffer" "buffer < length (blocks fl1)"
        "blocks fl1 ! buffer = bytes_of_float (reciprocal val)"
      and V: "var_at fl1 c = (var_at fl c)\<lparr>v_data := Some buffer\<rparr>"
      and old: "\<And>a. a < length (blocks fl) \<Longrightarrow> blocks fl1 ! a = blocks fl ! a"
    by blast
  have d1: "distinct (ops fl1)" using d o1 by simp
  have un1: "unary fl1 ''Sqrt''"
    using un o1 sq by (auto simp: unary_def)
  let ?ms = "Find fl1 ''Sqrt'' 0 ''Reciprocal''"
  let ?body = "bypass_body ''Rsqrt'' 0 (\<lambda>u. \<not> 1 < u) False"
  have lm: "live_matches fl1 ''Sqrt'' 0 ''Reciprocal'' ?ms" using d1 un1 by (rule live_matches_Find)
  have dv1: "dv \<in> set (ops fl1)" using din o1 by simp
  have t1: "op_type (op_at fl1 dv) = ''Mul''" using A by simp
  then have notin: "dv \<notin> set ?ms" by (simp add: Find_def matches_def)
  from bypass_pass_unchanged [where T = "''Rsqrt''" and ok = "\<lambda>u. \<not> 1 < u" and sw = False
      and n = n1 and ?c0.0 = dv, OF _ _ _ _ lm dv1] t1 notin
  obtain fl2 n2 where run2: "for_each ?body ?ms (fl1, n1) = Some (fl2, n2)"
    and res: "dv \<in> set (ops fl2)" "op_at fl2 dv = op_at fl1 dv"
    by auto
  from bypass_pass_basic [where T = "''Rsqrt''" and ok = "\<lambda>u. \<not> 1 < u" and sw = False
      and n = n1, OF _ _ _ _ lm] run2
  have n12: "n1 \<le> n2" and va: "var_at fl2 = var_at fl1" and bl: "blocks fl2 = blocks fl1"
    by auto
  from run1 run2 n1 n12 have "DivTransformer reciprocal fl = Some (fl2, True)"
    by (simp add: DivTransformer_def Rsqrt_body_bypass)
  moreover have "read_float fl2 c = Some (reciprocal val)"
    using V buf va bl by (simp add: read_float_def at_def bytes_roundtrip)
  ultimately show ?thesis using res A val buf V old va bl by auto
qed

theorem DivTransformer_constant_divisor_witness:
  "distinct (ops div_flow) \<and> float_constants_ok div_flow \<and> usages div_flow 1 = 1 \<and>
   blocks div_flow = [[0, 0, 0, 0x40]] \<and> v_data (var_at div_flow 1) = Some 0 \<and>
   read_float div_flow 1 = Some 0x40000000 \<and>
   (\<exists>fl' buffer. DivTransformer example_reciprocal div_flow = Some (fl', True) \<and>
      op_type (op_at fl' 0) = ''Mul'' \<and> inputs (op_at fl' 0) = [0, 1] \<and>
      1 \<le> buffer \<and> buffer < length (blocks fl') \<and>
      blocks fl' ! buffer = [0, 0, 0, 0x3F] \<and>
      read_float fl' 1 = Some 0x3F000000 \<and>
      v_data (var_at fl' 1) = Some buffer \<and> v_type (var_at fl' 1) = DT_FLOAT \<and>
      blocks fl' ! 0 = [0, 0, 0, 0x40])"
proof -
  have rf: "read_float div_flow 1 = Some 0x40000000"
    by (simp add: read_float_def div_flow_def at_def float_of_bytes_def)
  have half: "bytes_of_float 0x3F000000 = [0, 0, 0, 0x3F]"
    by (simp add: bytes_of_float_def)
  have d: "distinct (ops div_flow)" by (simp add: div_flow_def)
  have un: "unary div_flow ''Sqrt''" by (simp add: unary_def div_flow_def example_op_def)
  have fc: "float_constants_ok div_flow"
    unfolding float_constants_ok_def
  proof (intro allI impI)
    fix v
    assume "v_type (var_at div_flow v) = DT_FLOAT \<and> elements (v_shape (var_at div_flow v)) = 1 \<and>
          is_constant div_flow v"
    then have "v = 1"
      by (auto simp: div_flow_def is_constant_def example_var_def split: if_splits)
    with rf show "v_size (var_at div_flow v) = 4 \<and> read_float div_flow v \<noteq> None"
      by (simp add: div_flow_def)
  qed
  have din: "0 \<in> set (ops div_flow)" by (simp add: div_flow_def)
  have ty: "op_type (op_at div_flow 0) = ''Div'' \<or> op_type (op_at div_flow 0) = ''RealDiv''"
    by (simp add: div_flow_def example_op_def)
  have ins: "inputs (op_at div_flow 0) = [0, 1]" by (simp add: div_flow_def example_op_def)
  have cf: "v_type (var_at div_flow 1) = DT_FLOAT" by (simp add: div_flow_def)
  have ce: "elements (v_shape (var_at div_flow 1)) = 1" by (simp add: div_flow_def elements_def)
  have cc: "is_constant div_flow 1" by (simp add: div_flow_def is_constant_def)
  have cu: "usages div_flow 1 = 1"
    by (simp add: usages_def consumers_def div_flow_def example_op_def)
  have bl: "length (blocks div_flow) = 1" "blocks div_flow ! 0 = [0, 0, 0, 0x40]"
    "blocks div_flow = [[0, 0, 0, 0x40]]" "v_data (var_at div_flow 1) = Some 0"
    by (simp_all add: div_flow_def)
  from DivTransformer_constant_divisor [OF d un fc din ty ins cf ce cc cu, of example_reciprocal]
  obtain fl' buffer val where "DivTransformer example_reciprocal div_flow = Some (fl', True)"
    "op_at fl' 0 = (op_at div_flow 0)\<lparr>op_type := ''Mul''\<rparr>" "read_float div_flow 1 = Some val"
    "length (blocks div_flow) \<le> buffer" "buffer < length (blocks fl')"
    "blocks fl' ! buffer = bytes_of_float (example_reciprocal val)"
    "read_float fl' 1 = Some (example_reciprocal val)"
    "var_at fl' 1 = (var_at div_flow 1)\<lparr>v_data := Some buffer\<rparr>"
    "\<forall>a < length (blocks div_flow). blocks fl' ! a = blocks div_flow ! a"
    by blast
  with rf d fc cu ins cf bl half show ?thesis
    by (auto simp: example_reciprocal_def)
qed

section \<open>Properties of expression fusion\<close>

lemmas flow_defs = indegree_def outdegree_def is_constant_def out_def consumers_def usages_def
  producer_def at_def elements_def rank_def example_op_def

lemmas express_defs = InitExpression_op_def parsed_expression_def function_expression_def
  GetAttr_def Variable_def Lookup_def empty_express_def update_var_def
  CompactTempVars_def OpType_def OpType_table_def mark_input_def const_id_def
  read_float_def float_of_bytes_def float_const_id_def MapVars_def map_input_def map_output_def
  InputType_def

lemmas fuse_defs = FuseExpressions_def merged_expression_def fuse_input_def fuse_output_def
  IsInput_def IsOutput_def make_temp_def close_gap_def Merge_def merged_var_def IsAssignmentOp_def
  reduction_def var_usages_def

lemmas combine_defs = Combine_def GetAttr_bool_def GetPrototype_def inputs_fit_def outputs_fit_def
  indirect_def DependsOn_def defined_def IsCompatible_def IsAssignmentOp_def

lemmas example_defs = example_recipes_def id_expression_def merged_neg_expression_def
  fused_neg_expression_def neg_expression_def swapped_neg_expression_def example_var_of_def
  sum_add_expression_def add_expression_def

subsection \<open>The guard on reductions\<close>

lemma var_usages_pos: "0 < var_usages e r \<longleftrightarrow> (\<exists>y\<in>set (eops e). r \<in> set (args y))"
proof -
  have "0 < sum_list (map f xs) \<longleftrightarrow> (\<exists>x\<in>set xs. 0 < f x)" for f :: "Op \<Rightarrow> nat" and xs
    by (induction xs) auto
  moreover have "0 < count_list xs r \<longleftrightarrow> r \<in> set xs" for xs :: "nat list"
    by (induction xs) auto
  ultimately show ?thesis by (simp add: var_usages_def)
qed

lemma consumed_reduction_True:
  assumes "\<forall>x\<in>set xs. reduction x \<longrightarrow> result x \<noteq> None"
    and "\<exists>x\<in>set xs. reduction x \<and> (\<exists>r. result x = Some r \<and> 0 < var_usages e r)"
  shows "consumed_reduction e xs = Some True"
  using assms
proof (induction xs)
  case Nil
  then show ?case by simp
next
  case (Cons a xs)
  show ?case
  proof (cases "reduction a \<and> (\<exists>r. result a = Some r \<and> 0 < var_usages e r)")
    case True
    then show ?thesis by auto
  next
    case False
    with Cons.prems have "\<exists>x\<in>set xs. reduction x \<and> (\<exists>r. result x = Some r \<and> 0 < var_usages e r)"
      by auto
    with Cons.IH Cons.prems(1) have "consumed_reduction e xs = Some True" by simp
    with False Cons.prems(1) show ?thesis by (cases "result a") auto
  qed
qed

lemma consumes_reduction_iff:
  "consumes_reduction e \<longleftrightarrow>
     (\<exists>x\<in>set (eops e). reduction x \<and> (\<exists>r. result x = Some r \<and> 0 < var_usages e r))"
proof -
  have h: "(case result x of None \<Rightarrow> False | Some r \<Rightarrow> list_ex (\<lambda>y. r \<in> set (args y)) (eops e)) \<longleftrightarrow>
      (\<exists>r. result x = Some r \<and> 0 < var_usages e r)" for x
    by (cases "result x") (simp_all add: list_ex_iff var_usages_pos)
  show ?thesis by (simp add: consumes_reduction_def list_ex_iff h)
qed

lemma GetPrototype_Some:
  "0 < indegree fl p \<Longrightarrow> \<exists>v. GetPrototype fl p = Some v"
  by (cases "inputs (op_at fl p)"; cases "outputs (op_at fl p)")
    (auto simp: GetPrototype_def indegree_def at_def)

lemma Combine_rejects:
  assumes "FuseExpressions R fl a b = Some []"
  shows "Combine R fl a b = Some (False, fl)"
proof (cases "0 < indegree fl a")
  case True
  from GetPrototype_Some [OF this] obtain v where "GetPrototype fl a = Some v" ..
  with assms show ?thesis by (simp add: Combine_def Let_def)
next
  case False
  then show ?thesis by (simp add: Combine_def Let_def)
qed

lemma FuseExpressions_rejects:
  assumes "merged_expression R fl first second = Some e" and "consumes_reduction e"
    and "\<forall>x\<in>set (eops e). reduction x \<longrightarrow> result x \<noteq> None"
  shows "FuseExpressions R fl first second = Some []"
  using assms consumed_reduction_True [of "eops e" e]
  by (simp add: FuseExpressions_def consumes_reduction_iff)

lemma FuseExpressions_reduction_flow: "FuseExpressions R reduction_flow 0 1 = Some []"
proof (cases "ONE R = -1")
  case True
  then show ?thesis
    by (simp add: fuse_defs express_defs reduction_flow_def flow_defs upt_rec)
next
  case False
  then show ?thesis
    by (simp add: fuse_defs express_defs reduction_flow_def flow_defs upt_rec)
qed

lemma Combine_Sum_Add: "Combine R reduction_flow 0 1 = Some (False, reduction_flow)"
  using FuseExpressions_reduction_flow by (rule Combine_rejects)

lemma Combine_Add_Mul: "Combine R reduction_flow 1 2 = Some (False, reduction_flow)"
  by (simp add: combine_defs reduction_flow_def flow_defs)

lemma Combine_Sum_Mul: "Combine R reduction_flow 0 2 = Some (False, reduction_flow)"
  by (simp add: combine_defs reduction_flow_def flow_defs numeral_3_eq_3)

lemma candidates_reduction_flow: "candidates_of reduction_flow = [Some 0, Some 1, Some 2]"
  by (simp add: candidates_of_def IsCalculateOp_def IsAssignmentOp_def GetAttr_bool_def OpType_def OpType_table_def
    reduction_flow_def example_op_def)

lemma reduction_flow_facts:
  "\<not> IsAssignmentOp reduction_flow p"
  "IsCalculateOp reduction_flow p"
  "\<not> GetAttr_bool reduction_flow p ''strict''"
  "inputs (op_at reduction_flow 0) = [0]"
  "inputs (op_at reduction_flow (Suc 0)) = [1, 2]"
  "inputs (op_at reduction_flow 2) = [3, 0]"
  "producer reduction_flow 0 = None"
  "producer reduction_flow (Suc 0) = Some 0"
  "producer reduction_flow 2 = None"
  "producer reduction_flow 3 = Some 1"
  "vars reduction_flow = [0, 1, 2, 3, 4]"
  by (simp_all add: IsCalculateOp_def IsAssignmentOp_def GetAttr_bool_def OpType_def OpType_table_def
    reduction_flow_def example_op_def producer_def)

lemma sweep_assignments: "sweep R True (reduction_flow, 0, False) [Some 0, Some 1, Some 2] =
    Some ((reduction_flow, 0, False), [Some 0, Some 1, Some 2])"
  by (simp add: reduction_flow_facts)

lemma sweep_calculate: "sweep R False (reduction_flow, 0, False) [Some 0, Some 1, Some 2] =
    Some ((reduction_flow, 0, False), [Some 0, Some 1, Some 2])"
  by (simp add: reduction_flow_facts Combine_Sum_Add [unfolded One_nat_def] Combine_Add_Mul [unfolded One_nat_def])

lemma reduction_flow_usages:
  "usages reduction_flow 0 = 2" "usages reduction_flow (Suc 0) = 1" "usages reduction_flow 2 = 1"
  "usages reduction_flow 3 = 1" "usages reduction_flow 4 = 0"
  "consumers reduction_flow 0 = [0, 2]"
  "elements (v_shape (var_at reduction_flow 0)) = 8"
  by (simp_all add: reduction_flow_def flow_defs)

lemma share_reduction_flow: "share_scan R reduction_flow [0, 1, 2, 3, 4] = Some None"
  by (simp add: reduction_flow_facts reduction_flow_usages Combine_Sum_Mul)

lemma Transform_reduction_flow: "Transform (Suc n) R reduction_flow = Finished (reduction_flow, False)"
  by (simp add: Transform_def reduction_flow_facts candidates_reduction_flow [unfolded One_nat_def] sweep_assignments [unfolded One_nat_def]
      sweep_calculate [unfolded One_nat_def] share_reduction_flow [unfolded One_nat_def]
      del: sweep.simps share_scan.simps)


lemma merged_reduction_flow:
  "merged_expression example_recipes reduction_flow 0 1 = Some sum_add_expression"
  by (simp add: fuse_defs express_defs reduction_flow_def flow_defs upt_rec example_defs)

text \<open>
  C1. When the expression merged from two operations has a reduction whose result is an
  argument of one of its operations (every reduction having a result, which the source
  dereferences), \<open>FuseExpressions\<close> returns the empty recipe and \<open>Combine\<close> returns false and
  leaves the flow as it was. In the flow \<open>s = Sum(x); y = Add(s, 1); z = Mul(y, x)\<close>, for any
  parser and printer of recipes, the fusion of \<open>Sum\<close> into \<open>Add\<close> is rejected in this way,
  \<open>Combine\<close> rejects the two other pairs as well, and \<open>Transform\<close> returns false with the flow
  unchanged: the three operations remain.
\<close>

theorem reduction_guard:
  "(merged_expression R fl first second = Some e \<and> consumes_reduction e \<and>
      (\<forall>x\<in>set (eops e). reduction x \<longrightarrow> result x \<noteq> None) \<longrightarrow>
      FuseExpressions R fl first second = Some [] \<and>
      Combine R fl first second = Some (False, fl)) \<and>
   FuseExpressions R reduction_flow 0 1 = Some [] \<and>
   Combine R reduction_flow 0 1 = Some (False, reduction_flow) \<and>
   Combine R reduction_flow 1 2 = Some (False, reduction_flow) \<and>
   Combine R reduction_flow 0 2 = Some (False, reduction_flow) \<and>
   Transform (Suc n) R reduction_flow = Finished (reduction_flow, False) \<and>
   ops reduction_flow = [0, 1, 2] \<and>
   map (\<lambda>p. op_type (op_at reduction_flow p)) (ops reduction_flow) = [''Sum'', ''Add'', ''Mul'']"
proof -
  have "FuseExpressions R fl first second = Some [] \<and> Combine R fl first second = Some (False, fl)"
    if "merged_expression R fl first second = Some e" "consumes_reduction e"
      "\<forall>x\<in>set (eops e). reduction x \<longrightarrow> result x \<noteq> None"
    using FuseExpressions_rejects [OF that] Combine_rejects by blast
  moreover have "ops reduction_flow = [0, 1, 2]"
    "map (\<lambda>p. op_type (op_at reduction_flow p)) (ops reduction_flow) = [''Sum'', ''Add'', ''Mul'']"
    by (simp_all add: reduction_flow_def example_op_def)
  ultimately show ?thesis
    using FuseExpressions_reduction_flow [of R] Combine_Sum_Add [of R] Combine_Add_Mul [of R]
      Combine_Sum_Mul [of R] Transform_reduction_flow [of n R]
    by blast
qed

theorem reduction_guard_witness:
  "merged_expression example_recipes reduction_flow 0 1 = Some sum_add_expression \<and>
   consumes_reduction sum_add_expression \<and>
   list_all (\<lambda>x. result x \<noteq> None) (eops sum_add_expression) \<and>
   FuseExpressions example_recipes reduction_flow 0 1 = Some [] \<and>
   Combine example_recipes reduction_flow 0 1 = Some (False, reduction_flow) \<and>
   Transform 1 example_recipes reduction_flow = Finished (reduction_flow, False) \<and>
   ops reduction_flow = [0, 1, 2]"
proof -
  have c: "consumes_reduction sum_add_expression"
    by (simp add: consumes_reduction_def reduction_def sum_add_expression_def)
  have r: "list_all (\<lambda>x. result x \<noteq> None) (eops sum_add_expression)"
    by (simp add: sum_add_expression_def)
  then have r': "\<forall>x\<in>set (eops sum_add_expression). reduction x \<longrightarrow> result x \<noteq> None"
    by (simp add: list_all_iff)
  from reduction_guard [where R = example_recipes and fl = reduction_flow and first = 0
      and second = 1 and e = sum_add_expression and n = 0] merged_reduction_flow c r r'
  show ?thesis by simp
qed

subsection \<open>The fusion of an assignment\<close>


lemma first_index_Some:
  "first_index P xs = Some p \<longleftrightarrow> p < length xs \<and> P (xs ! p) \<and> (\<forall>k<p. \<not> P (xs ! k))"
proof (induction xs arbitrary: p)
  case Nil
  then show ?case by simp
next
  case (Cons x xs)
  show ?case
  proof (cases "P x")
    case True
    then show ?thesis by (cases p) auto
  next
    case False
    show ?thesis
    proof (cases p)
      case 0
      with False show ?thesis by simp
    next
      case (Suc m)
      have "(\<forall>k<Suc m. \<not> P ((x # xs) ! k)) \<longleftrightarrow> (\<forall>k<m. \<not> P (xs ! k))"
        using False by (auto simp: nth_Cons less_Suc_eq_0_disj split: nat.splits)
      with False Suc Cons.IH [of m] show ?thesis by auto
    qed
  qed
qed

lemma first_index_None: "first_index P xs = None \<longleftrightarrow> (\<forall>x\<in>set xs. \<not> P x)"
  by (induction xs) auto

lemma SetAttr_inputs [simp]: "inputs (op_at (SetAttr fl p n v) q) = inputs (op_at fl q)"
  by (simp add: SetAttr_def)

lemma SetAttr_GetAttr [simp]: "GetAttr (SetAttr fl p n v) p n = v"
  by (simp add: SetAttr_def GetAttr_def)





lemma merged_assign_flow: "merged_expression example_recipes assign_flow 0 1 = Some merged_neg_expression"
  by (simp add: fuse_defs express_defs assign_flow_def flow_defs upt_rec example_defs example_var_def)

lemma FuseExpressions_assign_flow: "FuseExpressions example_recipes assign_flow 0 1 = Some ''@0=Neg(%0)''"
  unfolding FuseExpressions_def merged_assign_flow
  by (simp add: example_defs reduction_def)

lemma Fuse_assign_flow:
  "ops (Fuse assign_flow 0 1 ''Assign'') = [0]"
  "vars (Fuse assign_flow 0 1 ''Assign'') = [0, 1]"
  "op_at (Fuse assign_flow 0 1 ''Assign'') 0 =
     \<lparr>op_type = ''Assign'', inputs = [0, 1], outputs = [], attrs = []\<rparr>"
  by (simp_all add: Fuse_def move_input_def move_output_def RemoveInput_def RemoveOutput_def
      AddInput_def AddOutput_def DeleteVariable_def RemoveOperation_def IsInput_def IsOutput_def
      assign_flow_def flow_defs inherit_attr_def Let_def example_var_def)

lemma assign_flow_checks:
  "\<not> GetAttr_bool assign_flow p ''nomerge''"
  "IsAssignmentOp assign_flow 1"
  "indegree assign_flow 0 = 1" "outdegree assign_flow 0 = 1" "indegree assign_flow 1 = 2"
  "GetPrototype assign_flow 0 = Some 2"
  "v_type (var_at assign_flow v) = DT_FLOAT" "v_shape (var_at assign_flow v) = [8]"
  "inputs_fit assign_flow DT_FLOAT [8] p" "outputs_fit assign_flow DT_FLOAT [8] p"
  "\<not> indirect assign_flow 0 1" "\<not> indirect assign_flow 1 0"
  "inputs (op_at assign_flow 1) ! 0 = 1"
  by (simp_all add: combine_defs assign_flow_def flow_defs example_var_def list_all_iff)

lemma exchange_ids_neg: "exchange_ids (Parse example_recipes ''@0=Neg(%0)'') 1 = swapped_neg_expression"
  by (simp add: exchange_ids_def Variable_def Lookup_def update_var_def example_defs)

lemma AsRecipe_swapped: "AsRecipe example_recipes swapped_neg_expression = ''@0=Neg(%1)''"
  by (simp add: example_defs)

lemma Combine_assign_flow:
  "\<exists>fl'. Combine example_recipes assign_flow 0 1 = Some (True, fl') \<and>
     ops fl' = [0] \<and> vars fl' = [0, 1] \<and>
     op_at fl' 0 = \<lparr>op_type = ''Assign'', inputs = [1, 0], outputs = [],
                     attrs = [(''expr'', ''@0=Neg(%1)'')]\<rparr>"
proof -
  let ?fused = "Fuse assign_flow 0 1 ''Assign''"
  have i: "at (inputs (op_at ?fused 0)) 0 = Some 0" "InputIndex ?fused 0 1 = 1"
    by (simp_all add: Fuse_assign_flow [unfolded One_nat_def] at_def InputIndex_def)
  have "Combine example_recipes assign_flow 0 1 =
      Some (True, SetAttr (swap_with_first ?fused 0 1) 0 ''expr'' ''@0=Neg(%1)'')"
    by (simp add: Combine_def Let_def assign_flow_checks [unfolded One_nat_def]
        FuseExpressions_assign_flow [unfolded One_nat_def] i [unfolded One_nat_def]
        exchange_ids_neg AsRecipe_swapped)
  then show ?thesis
    by (simp add: SetAttr_def swap_with_first_def Let_def Fuse_assign_flow [unfolded One_nat_def])
qed



subsection \<open>Termination of the transformer\<close>

lemma ops_RemoveInput [simp]: "ops (RemoveInput fl p v) = ops fl"
  by (simp add: RemoveInput_def)

lemma ops_move_input [simp]: "ops (move_input a b fl v) = ops fl"
  by (simp add: move_input_def Let_def RemoveOutput_def AddInput_def DeleteVariable_def)

lemma ops_move_output [simp]: "ops (move_output a b fl v) = ops fl"
  by (simp add: move_output_def Let_def RemoveOutput_def AddOutput_def DeleteVariable_def)

lemma ops_foldl_move_input [simp]: "ops (foldl (move_input a b) fl vs) = ops fl"
  by (induction vs arbitrary: fl) simp_all

lemma ops_foldl_move_output [simp]: "ops (foldl (move_output a b) fl vs) = ops fl"
  by (induction vs arbitrary: fl) simp_all

lemma ops_Fuse: "ops (Fuse fl a b t) = removeAll b (ops fl)"
  by (simp add: Fuse_def Let_def RemoveOperation_def)

lemma ops_SetAttr [simp]: "ops (SetAttr fl p n v) = ops fl"
  by (simp add: SetAttr_def)

lemma ops_swap_with_first [simp]: "ops (swap_with_first fl p k) = ops fl"
  by (simp add: swap_with_first_def Let_def)

lemma Combine_ops:
  assumes "Combine R fl a b = Some (r, fl')"
  shows "if r then ops fl' = removeAll b (ops fl) else fl' = fl"
  using assms
  by (auto simp: Combine_def Let_def ops_Fuse split: if_splits option.splits)

lemma length_removeAll_less: "x \<in> set xs \<Longrightarrow> length (removeAll x xs) < length xs"
  by (induction xs) (auto simp: less_Suc_eq_le)

lemma Combine_length:
  assumes "Combine R fl a b = Some (r, fl')"
  shows "length (ops fl') \<le> length (ops fl)"
  using Combine_ops [OF assms] by (auto split: if_splits)

lemma try_producers_length:
  "try_producers R as fl p vs = Some (Some fl') \<Longrightarrow> length (ops fl') \<le> length (ops fl)"
  by (induction vs) (auto split: option.splits if_splits dest: Combine_length)

lemma sweep_props:
  "sweep R as (fl, n, ag) cs = Some ((fl', n', ag'), cs') \<Longrightarrow>
     live cs' + n' = live cs + n \<and> n \<le> n' \<and> (ag' \<longleftrightarrow> ag \<or> n < n') \<and>
     length (ops fl') \<le> length (ops fl)"
proof (induction cs arbitrary: fl n ag cs')
  case Nil
  then show ?case by (simp add: live_def)
next
  case (Cons c cs)
  let ?t = "(case c of None \<Rightarrow> Some None
             | Some p \<Rightarrow>
                 if \<not> (if as then IsAssignmentOp fl p else IsCalculateOp fl p)
                 then Some None
                 else try_producers R as fl p (inputs (op_at fl p)))"
  from Cons.prems have "?t \<noteq> None" by (auto split: option.splits)
  then obtain t where t: "?t = Some t" by blast
  show ?case
  proof (cases t)
    case None
    with t Cons.prems obtain cs1 where s: "sweep R as (fl, n, ag) cs = Some ((fl', n', ag'), cs1)"
      and c: "cs' = c # cs1"
      by (auto split: option.splits)
    from Cons.IH [OF s] c show ?thesis by (simp add: live_def)
  next
    case (Some fl1)
    with t Cons.prems obtain cs1 where s: "sweep R as (fl1, n + 1, True) cs = Some ((fl', n', ag'), cs1)"
      and c: "cs' = None # cs1"
      by (auto split: option.splits)
    from t Some obtain p where p: "c = Some p"
      and tp: "try_producers R as fl p (inputs (op_at fl p)) = Some (Some fl1)"
      by (auto split: option.splits if_splits)
    from Cons.IH [OF s] c p try_producers_length [OF tp] show ?thesis by (auto simp: live_def)
  qed
qed

lemma merge_loop_terminates:
  "live cs < fuel \<Longrightarrow>
     merge_loop fuel R as fl cs n \<noteq> OutOfFuel \<and>
     (\<forall>fl' cs' n'. merge_loop fuel R as fl cs n = Finished (fl', cs', n') \<longrightarrow>
        length (ops fl') \<le> length (ops fl) \<and> live cs' \<le> live cs)"
proof (induction fuel arbitrary: fl cs n)
  case 0
  then show ?case by simp
next
  case (Suc fuel)
  show ?case
  proof (cases "sweep R as (fl, n, False) cs")
    case None
    then show ?thesis by simp
  next
    case (Some r)
    obtain fl1 n1 ag1 cs1 where r: "r = ((fl1, n1, ag1), cs1)" by (metis prod_cases3 surj_pair)
    from sweep_props [OF Some [unfolded r]]
    have 1: "live cs1 + n1 = live cs + n" "n \<le> n1" "ag1 \<longleftrightarrow> n < n1"
      "length (ops fl1) \<le> length (ops fl)" by auto
    show ?thesis
    proof (cases ag1)
      case True
      with 1 Suc.prems have "live cs1 < fuel" by linarith
      from Suc.IH [OF this, where fl = fl1 and n = n1] Some r True 1 show ?thesis by auto
    next
      case False
      with Some r 1 show ?thesis by auto
    qed
  qed
qed

lemma set_consumers: "set (consumers fl v) \<subseteq> set (ops fl)"
  by (auto simp: consumers_def)

lemma share_scan_length:
  "share_scan R fl vs = Some (Some fl') \<Longrightarrow> length (ops fl') < length (ops fl)"
proof (induction vs)
  case Nil
  then show ?case by simp
next
  case (Cons var rest)
  let ?cs = "filter (\<lambda>p. IsCalculateOp fl p \<and> \<not> GetAttr_bool fl p ''strict'') (consumers fl var)"
  show ?case
  proof (cases "\<exists>first second others. \<not> usages fl var < 2 \<and> \<not> elements (v_shape (var_at fl var)) < 2 \<and>
      ?cs = first # second # others \<and> Combine R fl first second = Some (True, fl')")
    case True
    then obtain first second others where cs: "?cs = first # second # others"
      and c: "Combine R fl first second = Some (True, fl')" by blast
    have "second \<in> set ?cs" by (simp add: cs)
    then have "second \<in> set (ops fl)" using set_consumers [of fl var] by auto
    with Combine_ops [OF c] show ?thesis by (simp add: length_removeAll_less)
  next
    case False
    with Cons.prems have "share_scan R fl rest = Some (Some fl')"
      by (auto split: if_splits list.splits option.splits)
    then show ?thesis by (rule Cons.IH)
  qed
qed

lemma share_loop_terminates:
  "length (ops fl) < fuel \<Longrightarrow> share_loop fuel R fl n \<noteq> OutOfFuel"
proof (induction fuel arbitrary: fl n)
  case 0
  then show ?case by simp
next
  case (Suc fuel)
  show ?case
  proof (cases "share_scan R fl (vars fl)")
    case None
    then show ?thesis by simp
  next
    case (Some r)
    show ?thesis
    proof (cases r)
      case None
      with Some show ?thesis by simp
    next
      case (Some fl1)
      with \<open>share_scan R fl (vars fl) = Some r\<close>
      have s: "share_scan R fl (vars fl) = Some (Some fl1)" by simp
      from share_scan_length [OF s] Suc.prems have "length (ops fl1) < fuel" by linarith
      from Suc.IH [OF this] s show ?thesis by simp
    qed
  qed
qed

lemma live_candidates: "live (candidates_of fl) \<le> length (ops fl)"
  unfolding live_def candidates_of_def
  by (rule order_trans [OF length_filter_le]) simp

lemma Transform_fuel:
  assumes "length (ops fl) < fuel"
  shows "Transform fuel R fl \<noteq> OutOfFuel"
proof -
  let ?cs = "candidates_of fl"
  have l0: "live ?cs < fuel" using live_candidates [of fl] assms by linarith
  note m1 = merge_loop_terminates [OF l0, of R True fl 0]
  show ?thesis
  proof (cases "merge_loop fuel R True fl ?cs 0")
    case OutOfFuel
    with m1 show ?thesis by simp
  next
    case Aborted
    then show ?thesis by (simp add: Transform_def)
  next
    case (Finished r1)
    obtain fl1 cs1 n1 where r1: "r1 = (fl1, cs1, n1)" by (metis prod_cases3)
    from m1 Finished r1 have a: "length (ops fl1) \<le> length (ops fl)" "live cs1 \<le> live ?cs"
      by auto
    with l0 have l1: "live cs1 < fuel" by linarith
    note m2 = merge_loop_terminates [OF l1, of R False fl1 n1]
    show ?thesis
    proof (cases "merge_loop fuel R False fl1 cs1 n1")
      case OutOfFuel
      with m2 show ?thesis by simp
    next
      case Aborted
      with Finished r1 show ?thesis by (simp add: Transform_def)
    next
      case f2: (Finished r2)
      obtain fl2 cs2 n2 where r2: "r2 = (fl2, cs2, n2)" by (metis prod_cases3)
      from m2 f2 r2 have "length (ops fl2) \<le> length (ops fl1)" by auto
      with a assms have "length (ops fl2) < fuel" by linarith
      from share_loop_terminates [OF this, of R n2] Finished r1 f2 r2 show ?thesis
        by (cases "share_loop fuel R fl2 n2") (simp_all add: Transform_def split: prod.splits)
    qed
  qed
qed


text \<open>
  C8. The fuel is the number of passes that each \<open>while (again)\<close> loop may make. A pass of
  one of the two loops over the candidates that combines anything sets a candidate to null,
  so that the loop ends within as many passes as there are candidates that are not null,
  plus one; a successful \<open>Combine\<close> on a live second operation takes that operation out of the
  flow, so that the loop over the shared inputs ends within as many passes as there are
  operations, plus one. Hence \<open>Transform\<close> does not run out of fuel when the fuel exceeds the
  number of operations of the flow, and so for the square of that number plus one.
\<close>

theorem Transform_terminates:
  "(live cs < fuel \<longrightarrow> merge_loop fuel R assignments fl cs n \<noteq> OutOfFuel) \<and>
   (length (ops fl) < fuel \<longrightarrow> share_loop fuel R fl n \<noteq> OutOfFuel) \<and>
   (length (ops fl) < fuel \<longrightarrow> Transform fuel R fl \<noteq> OutOfFuel) \<and>
   Transform (Suc (length (ops fl)) * Suc (length (ops fl))) R fl \<noteq> OutOfFuel \<and>
   (Combine R g first second = Some (True, g') \<and> second \<in> set (ops g) \<longrightarrow>
      ops g' = removeAll second (ops g) \<and> length (ops g') < length (ops g))"
proof -
  have "length (ops fl) < Suc (length (ops fl)) * Suc (length (ops fl))" by simp
  then have "Transform (Suc (length (ops fl)) * Suc (length (ops fl))) R fl \<noteq> OutOfFuel"
    by (rule Transform_fuel)
  moreover have "ops g' = removeAll second (ops g) \<and> length (ops g') < length (ops g)"
    if "Combine R g first second = Some (True, g')" "second \<in> set (ops g)"
    using Combine_ops [OF that(1)] that(2) by (simp add: length_removeAll_less)
  ultimately show ?thesis
    using merge_loop_terminates [of cs fuel R assignments fl n] share_loop_terminates [of fl fuel R n]
      Transform_fuel [of fl fuel R]
    by blast
qed

theorem Transform_terminates_witness:
  "live (candidates_of reduction_flow) < 4 \<and> length (ops reduction_flow) < 4 \<and>
   merge_loop 4 example_recipes False reduction_flow (candidates_of reduction_flow) 0 \<noteq> OutOfFuel \<and>
   share_loop 4 example_recipes reduction_flow 0 \<noteq> OutOfFuel \<and>
   Transform 4 example_recipes reduction_flow \<noteq> OutOfFuel \<and>
   1 \<in> set (ops assign_flow) \<and> length (ops assign_flow) = 2 \<and>
   (\<exists>g'. Combine example_recipes assign_flow 0 1 = Some (True, g') \<and>
      ops g' = [0] \<and> length (ops g') < length (ops assign_flow))"
proof -
  have l: "live (candidates_of reduction_flow) < 4"
    by (simp add: candidates_reduction_flow live_def)
  have l': "length (ops reduction_flow) < 4"
    by (simp add: reduction_flow_def)
  have s: "1 \<in> set (ops assign_flow)" "length (ops assign_flow) = 2"
    by (simp_all add: assign_flow_def)
  from Combine_assign_flow obtain g'
    where c: "Combine example_recipes assign_flow 0 1 = Some (True, g')" and o: "ops g' = [0]"
    by blast
  note t = Transform_terminates [where cs = "candidates_of reduction_flow" and fuel = 4
      and R = example_recipes and assignments = False and fl = reduction_flow and n = 0
      and g = assign_flow and first = 0 and second = 1 and g' = g']
  from t l have 1: "merge_loop 4 example_recipes False reduction_flow
      (candidates_of reduction_flow) 0 \<noteq> OutOfFuel"
    by blast
  from t l' have 2: "share_loop 4 example_recipes reduction_flow 0 \<noteq> OutOfFuel"
    "Transform 4 example_recipes reduction_flow \<noteq> OutOfFuel"
    by blast+
  from t c s have 3: "length (ops g') < length (ops assign_flow)" by blast
  from l l' 1 2 s c o 3 show ?thesis by blast
qed

subsection \<open>The flag of scalar inputs\<close>

lemma first_index_cong:
  "length ys = length xs \<Longrightarrow> (\<And>j. j < length xs \<Longrightarrow> P (ys ! j) = P (xs ! j)) \<Longrightarrow>
     first_index P ys = first_index P xs"
proof (induction xs arbitrary: ys)
  case Nil
  then show ?case by simp
next
  case (Cons x xs)
  then obtain y ys' where ys: "ys = y # ys'" by (cases ys) auto
  from Cons.prems(2) [of 0] ys have h: "P y = P x" by simp
  have "first_index P ys' = first_index P xs"
  proof (rule Cons.IH)
    show "length ys' = length xs" using Cons.prems(1) ys by simp
    show "P (ys' ! j) = P (xs ! j)" if "j < length xs" for j
      using Cons.prems(2) [of "Suc j"] that ys by simp
  qed
  with h ys show ?case by simp
qed

lemma first_index_append:
  "first_index P xs = Some p \<Longrightarrow> first_index P (xs @ ys) = Some p"
  by (induction xs arbitrary: p) (auto split: if_splits)

lemma Variable_props:
  assumes "Variable e t i = (q, e1)" and "i \<noteq> -1"
  shows "q < length (evars e1) \<and> var_type (evars e1 ! q) = t \<and> var_id (evars e1 ! q) = i \<and>
     Lookup e1 t i = Some q \<and> eops e1 = eops e \<and>
     (\<exists>vs. evars e1 = evars e @ vs) "
proof (cases "Lookup e t i")
  case None
  then have n: "\<forall>x\<in>set (evars e). \<not> (var_type x = t \<and> var_id x = i)"
    by (simp add: Lookup_def first_index_None)
  from None assms have q: "q = length (evars e)"
    and e1: "e1 = e\<lparr>evars := evars e @ [\<lparr>var_type = t, var_id = i, single = False\<rparr>]\<rparr>"
    by (auto simp: Variable_def)
  have "Lookup e1 t i = Some q"
    unfolding Lookup_def first_index_Some using n by (auto simp: q e1 nth_append)
  then show ?thesis by (simp add: q e1)
next
  case (Some p)
  with assms have "q = p" "e1 = e" by (auto simp: Variable_def)
  with Some show ?thesis by (auto simp: Lookup_def first_index_Some)
qed

lemma Lookup_update_var:
  assumes "q < length (evars e)"
    and "(var_type (f (evars e ! q)) = t \<and> var_id (f (evars e ! q)) = i) =
         (var_type (evars e ! q) = t \<and> var_id (evars e ! q) = i)"
  shows "Lookup (update_var e q f) t i = Lookup e t i"
proof -
  let ?P = "\<lambda>v::Var. var_type v = t \<and> var_id v = i"
  have pq: "?P (f (evars e ! q)) = ?P (evars e ! q)" using assms(2) by simp
  have "first_index ?P ((evars e)[q := f (evars e ! q)]) = first_index ?P (evars e)"
  proof (rule first_index_cong)
    show "length ((evars e)[q := f (evars e ! q)]) = length (evars e)" by simp
    show "?P ((evars e)[q := f (evars e ! q)] ! j) = ?P (evars e ! j)" if "j < length (evars e)" for j
      using that pq by (cases "j = q") simp_all
  qed
  then show ?thesis by (simp add: Lookup_def update_var_def)
qed

lemma marked_single_mark_scalar:
  assumes m: "marked_single e i" and ik: "i \<noteq> k"
  shows "marked_single (mark_scalar constant ts step e k) i"
proof (cases "elements (m_shape (ts (s_inputs step ! k))) = 1")
  case False
  with m show ?thesis by (simp add: mark_scalar_def)
next
  case True
  obtain q e1 where v: "Variable e INPUT (int k) = (q, e1)" by (cases "Variable e INPUT (int k)")
  from Variable_props [OF v] obtain vs where q: "q < length (evars e1)"
    "var_type (evars e1 ! q) = INPUT" "var_id (evars e1 ! q) = int k" "evars e1 = evars e @ vs"
    by auto
  from m obtain p where p: "Lookup e INPUT (int i) = Some p" "single (evars e ! p)"
    by (auto simp: marked_single_def split: option.splits)
  then have pl: "p < length (evars e)" by (simp add: Lookup_def first_index_Some)
  have p1: "Lookup e1 INPUT (int i) = Some p"
    using p(1) q(4) by (simp add: Lookup_def first_index_append)
  have s1: "single (evars e1 ! p)" using p(2) pl q(4) by (simp add: nth_append)
  from p1 q ik have qp: "q \<noteq> p" by (auto simp: Lookup_def first_index_Some)
  have l: "Lookup (update_var e1 q f) INPUT (int i) = Some p"
    if "var_id (f (evars e1 ! q)) = int k" for f
    using Lookup_update_var [of q e1 f INPUT "int i"] q ik that p1 by auto
  have n: "evars (update_var e1 q f) ! p = evars e1 ! p" for f
    using qp by (simp add: update_var_def)
  show ?thesis
    using True v s1 q(3)
    by (simp add: mark_scalar_def marked_single_def l n)
qed

lemma marked_single_new:
  assumes "elements (m_shape (ts (s_inputs step ! k))) = 1" and "\<not> constant (ts (s_inputs step ! k))"
  shows "marked_single (mark_scalar constant ts step e k) k"
proof -
  obtain q e1 where v: "Variable e INPUT (int k) = (q, e1)" by (cases "Variable e INPUT (int k)")
  from Variable_props [OF v] have q: "q < length (evars e1)"
    "var_type (evars e1 ! q) = INPUT" "var_id (evars e1 ! q) = int k"
    "Lookup e1 INPUT (int k) = Some q"
    by auto
  have "Lookup (update_var e1 q (\<lambda>v. v\<lparr>single := True\<rparr>)) INPUT (int k) = Some q"
    using Lookup_update_var [of q e1 "\<lambda>v. v\<lparr>single := True\<rparr>" INPUT "int k"] q by simp
  moreover have "single (evars (update_var e1 q (\<lambda>v. v\<lparr>single := True\<rparr>)) ! q)"
    using q(1) by (simp add: update_var_def)
  ultimately show ?thesis using assms v by (simp add: mark_scalar_def marked_single_def)
qed

lemma mark_scalar_loop:
  assumes "i < n" and "elements (m_shape (ts (s_inputs step ! i))) = 1"
    and "\<not> c (ts (s_inputs step ! i))"
  shows "marked_single (foldl (mark_scalar c ts step) e [0..<n]) i"
  using assms(1)
proof (induction n)
  case 0
  then show ?case by simp
next
  case (Suc n)
  show ?case
  proof (cases "i = n")
    case True
    with assms(2,3) show ?thesis by (simp add: marked_single_new)
  next
    case False
    with Suc have "marked_single (foldl (mark_scalar c ts step) e [0..<n]) i" by simp
    with False show ?thesis by (simp add: marked_single_mark_scalar)
  qed
qed

lemma Expression_init_vector:
  "Expression_init example_recipes IsConstant example_prototype example_CommonSize
     (example_tensors False) example_step = Some (add_expression True, DT_FLOAT, 8)"
  by (simp add: Expression_init_def InitExpression_step_def parsed_expression_def
      function_expression_def mark_scalar_def common_elements_def example_CommonSize_def
      example_tensors_def example_step_def example_tensor_def IsConstant_def elements_def
      Variable_def Lookup_def update_var_def empty_express_def CompactTempVars_def OpType_def
      OpType_table_def upt_rec step_attr_def clear_single_def Let_def example_prototype_def
      add_expression_def example_var_of_def)

lemma Expression_init_scalar:
  "Expression_init example_recipes IsConstant example_prototype example_CommonSize
     (example_tensors True) example_step = Some (add_expression False, DT_FLOAT, 1)"
  by (simp add: Expression_init_def InitExpression_step_def parsed_expression_def
      function_expression_def mark_scalar_def common_elements_def example_CommonSize_def
      example_tensors_def example_step_def example_tensor_def IsConstant_def elements_def
      Variable_def Lookup_def update_var_def empty_express_def CompactTempVars_def OpType_def
      OpType_table_def upt_rec step_attr_def clear_single_def Let_def example_prototype_def
      add_expression_def example_var_of_def)

text \<open>
  C7. Let the constructor of \<open>Expression\<close> reach the selection of the generator with the
  expression \<open>e\<close>, the type and the number \<open>n\<close> of elements. Then \<open>InitExpression\<close> has returned
  an expression \<open>e0\<close> in which, for every input of the step that has one element and is not a
  constant, the variable \<open>Variable(INPUT, i)\<close> has the flag \<open>single\<close>; \<open>n\<close> is the number of
  elements of the prototype, lowered to the common size with each input of more than one
  element; when \<open>n = 1\<close>, \<open>e\<close> is \<open>e0\<close> with the flag cleared on every variable, and otherwise \<open>e\<close>
  is \<open>e0\<close>, with its flags.
\<close>

theorem scalar_inputs_single:
  assumes "Expression_init R constant prototype_of CommonSize ts step = Some (e, type, n)"
  shows "\<exists>e0. InitExpression_step R constant ts step = Some e0 \<and>
     (\<forall>i<length (s_inputs step).
         elements (m_shape (ts (s_inputs step ! i))) = 1 \<and> \<not> constant (ts (s_inputs step ! i)) \<longrightarrow>
         marked_single e0 i) \<and>
     type = m_type (ts (prototype_of step)) \<and>
     n = common_elements CommonSize ts step (prototype_of step) \<and>
     (if n = 1 then e = clear_single e0 \<and> (\<forall>v\<in>set (evars e). \<not> single v) else e = e0)"
proof -
  from assms obtain e0 where e0: "InitExpression_step R constant ts step = Some e0"
    and r: "type = m_type (ts (prototype_of step))"
      "n = common_elements CommonSize ts step (prototype_of step)"
      "e = (if n = 1 then clear_single e0 else e0)"
    by (auto simp: Expression_init_def Let_def split: option.splits)
  from e0 obtain e00 where "e0 = foldl (mark_scalar constant ts step) e00 [0..<length (s_inputs step)]"
    by (auto simp: InitExpression_step_def split: option.splits)
  then have "marked_single e0 i" if "i < length (s_inputs step)"
    "elements (m_shape (ts (s_inputs step ! i))) = 1" "\<not> constant (ts (s_inputs step ! i))" for i
    using mark_scalar_loop [where i = i and n = "length (s_inputs step)" and ts = ts and step = step
        and c = "constant" and e = e00] that by simp
  with e0 r show ?thesis by (auto simp: clear_single_def)
qed

theorem scalar_inputs_single_witness:
  "Expression_init example_recipes IsConstant example_prototype example_CommonSize
     (example_tensors False) example_step = Some (add_expression True, DT_FLOAT, 8) \<and>
   elements (m_shape (example_tensors False (s_inputs example_step ! 1))) = 1 \<and>
   \<not> IsConstant (example_tensors False (s_inputs example_step ! 1)) \<and>
   marked_single (add_expression True) 1 \<and>
   map single (evars (add_expression True)) = [False, True, False] \<and>
   Expression_init example_recipes IsConstant example_prototype example_CommonSize
     (example_tensors True) example_step = Some (add_expression False, DT_FLOAT, 1) \<and>
   list_all (\<lambda>v. \<not> single v) (evars (add_expression False))"
proof -
  have s: "elements (m_shape (example_tensors False (s_inputs example_step ! 1))) = 1"
    "\<not> IsConstant (example_tensors False (s_inputs example_step ! 1))"
    "length (s_inputs example_step) = 2"
    by (simp_all add: example_tensors_def example_step_def example_tensor_def elements_def
        IsConstant_def)
  from scalar_inputs_single [OF Expression_init_vector] s
  have 1: "marked_single (add_expression True) 1" by auto
  from scalar_inputs_single [OF Expression_init_scalar]
  have 2: "list_all (\<lambda>v. \<not> single v) (evars (add_expression False))"
    by (auto simp: list_all_iff)
  have 3: "map single (evars (add_expression True)) = [False, True, False]"
    by (simp add: add_expression_def example_var_of_def)
  from Expression_init_vector Expression_init_scalar s 1 2 3 show ?thesis by simp
qed

end
